theory Spec2Isabelle
  imports Main "HOL-Library.Word" "HOL-Library.Monad_Syntax"
begin

unbundle bit_operations_syntax

section \<open>Named pipes of the Wine server (server/named\_pipe.c)\<close>

text \<open>
  The server is single threaded: every request handler and every fd operation runs to
  completion on the server's memory.  The model is a state record \<open>sys\<close> holding that
  memory, and one HOL function per C function of \<^verbatim>\<open>server/named_pipe.c\<close>, taking the state
  and returning the new one.  Pointers are addresses (\<open>nat\<close>); a nullable pointer is an
  \<open>option\<close>.  A failed \<^verbatim>\<open>assert\<close> and a dereference of a null or invalid pointer end the
  server process: such a run returns \<open>None\<close>.
\<close>

subsection \<open>Machine types and constants\<close>

type_synonym addr = nat
type_synonym data_size_t = "32 word"
type_synonym uint = "32 word"
type_synonym byte = "8 word"

text \<open>
  The status codes this file uses.  \<open>STATUS_OTHER\<close> stands for a status chosen by a host
  routine outside this file (for instance the mapping of \<^verbatim>\<open>errno\<close> by \<^verbatim>\<open>file_set_error\<close>).
\<close>

datatype ntstatus =
    STATUS_SUCCESS
  | STATUS_PENDING
  | STATUS_ALERTED
  | STATUS_BUFFER_OVERFLOW
  | STATUS_NO_MEMORY
  | STATUS_PIPE_LISTENING
  | STATUS_PIPE_CONNECTED
  | STATUS_PIPE_DISCONNECTED
  | STATUS_PIPE_BROKEN
  | STATUS_NO_DATA_DETECTED
  | STATUS_PIPE_NOT_AVAILABLE
  | STATUS_INSTANCE_NOT_AVAILABLE
  | STATUS_ACCESS_DENIED
  | STATUS_INVALID_PARAMETER
  | STATUS_INVALID_HANDLE
  | STATUS_BAD_DEVICE_TYPE
  | STATUS_OBJECT_NAME_EXISTS
  | STATUS_OBJECT_NAME_INVALID
  | STATUS_OBJECT_PATH_SYNTAX_BAD
  | STATUS_OBJECT_TYPE_MISMATCH
  | STATUS_NOT_SUPPORTED
  | STATUS_INFO_LENGTH_MISMATCH
  | STATUS_IO_TIMEOUT
  | STATUS_OTHER nat

text \<open>
  Flag and access constants.  Their values come from headers that are not part of the
  sources at hand (\<^verbatim>\<open>wine/server_protocol.h\<close>, \<^verbatim>\<open>winnt.h\<close>); the theorems below hold for
  any values and only the evaluations at concrete inputs use them.
\<close>

definition NAMED_PIPE_MESSAGE_STREAM_WRITE :: uint where
  "NAMED_PIPE_MESSAGE_STREAM_WRITE = 0x0001"

definition NAMED_PIPE_MESSAGE_STREAM_READ :: uint where
  "NAMED_PIPE_MESSAGE_STREAM_READ = 0x0002"

definition NAMED_PIPE_NONBLOCKING_MODE :: uint where
  "NAMED_PIPE_NONBLOCKING_MODE = 0x0004"

definition NAMED_PIPE_SERVER_END :: uint where
  "NAMED_PIPE_SERVER_END = 0x8000"

definition FILE_SHARE_READ :: uint where
  "FILE_SHARE_READ = 0x00000001"

definition FILE_SHARE_WRITE :: uint where
  "FILE_SHARE_WRITE = 0x00000002"

definition GENERIC_READ :: uint where
  "GENERIC_READ = 0x80000000"

definition GENERIC_WRITE :: uint where
  "GENERIC_WRITE = 0x40000000"

definition FILE_SYNCHRONOUS_IO_ALERT :: uint where
  "FILE_SYNCHRONOUS_IO_ALERT = 0x00000010"

definition FILE_SYNCHRONOUS_IO_NONALERT :: uint where
  "FILE_SYNCHRONOUS_IO_NONALERT = 0x00000020"

datatype ioctl_code_t =
    FSCTL_PIPE_LISTEN
  | FSCTL_PIPE_DISCONNECT
  | FSCTL_PIPE_PEEK
  | FSCTL_PIPE_WAIT
  | FSCTL_OTHER nat

subsection \<open>The structures of named\_pipe.c\<close>

datatype pipe_state =
    ps_idle_server
  | ps_wait_open
  | ps_connected_server
  | ps_wait_disconnect
  | ps_wait_connect

text \<open>\<^verbatim>\<open>struct pipe_message\<close>; the list entry is the position in the queue.\<close>

record pipe_message =
  read_pos :: data_size_t
  msg_iosb :: addr
  msg_async :: "addr option"

text \<open>\<^verbatim>\<open>struct pipe_end\<close>; an async queue is the list of the asyncs queued on it.\<close>

record pipe_end =
  pe_fd :: "addr option"
  pe_flags :: uint
  pe_connection :: "addr option"
  pe_buffer_size :: data_size_t
  pe_message_queue :: "pipe_message list"
  pe_read_q :: "addr list option"
  pe_write_q :: "addr list option"

text \<open>
  \<^verbatim>\<open>struct pipe_server\<close> and \<^verbatim>\<open>struct pipe_client\<close> start with their \<^verbatim>\<open>pipe_end\<close>: the end
  lives at the address of the server or client, and these records hold the other fields.
\<close>

record pipe_server =
  srv_ioctl_fd :: "addr option"
  srv_state :: pipe_state
  srv_client :: "addr option"
  srv_pipe :: addr
  srv_flush_poll :: bool
  srv_options :: uint

record pipe_client =
  cl_server :: "addr option"
  cl_flags :: uint

text \<open>\<^verbatim>\<open>struct named_pipe\<close>, with the reference count of its object header.\<close>

record named_pipe =
  np_refcount :: nat
  np_flags :: uint
  np_sharing :: uint
  np_maxinstances :: uint
  np_outsize :: uint
  np_insize :: uint
  np_instances :: uint
  np_timeout :: int
  np_servers :: "addr list"
  np_waiters :: "addr list option"

datatype object_ops = no_object | pipe_server_ops | pipe_client_ops | named_pipe_ops

subsection \<open>The host: asyncs, I/O status blocks, file descriptors\<close>

text \<open>
  Modelled from the spec: \<^verbatim>\<open>struct iosb\<close>, \<^verbatim>\<open>struct async\<close>, \<^verbatim>\<open>struct fd\<close> and the routines on
  them (\<^verbatim>\<open>async.c\<close>, \<^verbatim>\<open>fd.c\<close>, \<^verbatim>\<open>object.c\<close>, \<^verbatim>\<open>handle.c\<close>) are not in the sources at hand.
  The spec's glossary gives the I/O status block as the record
  \<open>{in_data, in_size, out_data, out_size, status, result}\<close> shared by the caller and the
  server, and an async as a suspended caller with its status block, completed by
  \<open>terminate(status)\<close> or \<open>wake_up(status)\<close>.  A file descriptor object has a signalled
  bit, a no-fd status and a queue of waiting asyncs.  Terminating an async triggers the
  reselect of the queue it belongs to (\<open>async_terminate\<close> below, after
  \<open>pipe_end_reselect_async\<close>, which it calls for the queues of a pipe end).
\<close>

record iosb =
  iosb_status :: ntstatus
  iosb_result :: data_size_t
  in_size :: data_size_t
  in_data :: "byte list option"
  out_size :: data_size_t
  out_data :: "byte list option"

text \<open>
  The queue an async belongs to (\<^verbatim>\<open>async->queue\<close>, with the end of \<^verbatim>\<open>async->fd\<close>): the read
  queue or the write queue of a pipe end, or a queue that is neither (the wait queue of a
  file descriptor, the waiters of a named pipe, or none).
\<close>

datatype async_queue_ref = Read_q_of addr | Write_q_of addr | Other_queue

record async =
  a_status :: ntstatus
  a_iosb :: addr
  a_blocking :: bool
  a_queue :: async_queue_ref

record fd_obj =
  fd_signaled :: bool
  fd_no_fd_status :: ntstatus
  fd_wait_q :: "addr list"
  fd_unix :: bool
  fd_pollin :: bool

datatype event =
    Ev_async_terminate addr ntstatus
  | Ev_release_async addr
  | Ev_fd_async_wake_up addr ntstatus
  | Ev_close_handle nat

text \<open>
  The memory of the server.  \<open>asyncs\<close> is the table of all asyncs, an async's address
  being its index.  \<open>host\<close> is the list of answers the host will give to the calls that
  can fail for lack of a resource (allocation of memory, of a handle, of a socket pair),
  in call order; when the list is used up every such call succeeds.  \<open>trace\<close> records, in
  order, the completions and releases of asyncs.
\<close>

record sys =
  ends :: "addr \<Rightarrow> pipe_end"
  servers :: "addr \<Rightarrow> pipe_server"
  clients :: "addr \<Rightarrow> pipe_client"
  obj_ops :: "addr \<Rightarrow> object_ops"
  pipes :: "addr \<Rightarrow> named_pipe"
  namespace :: "string \<Rightarrow> addr option"
  fds :: "addr \<Rightarrow> fd_obj"
  asyncs :: "async list"
  iosbs :: "addr \<Rightarrow> iosb"
  cur_error :: ntstatus
  ignore_reselect :: bool
  next_addr :: addr
  next_handle :: nat
  host :: "bool list"
  trace :: "event list"

definition upd_end :: "addr \<Rightarrow> (pipe_end \<Rightarrow> pipe_end) \<Rightarrow> sys \<Rightarrow> sys" where
  "upd_end a f s = s\<lparr>ends := (ends s)(a := f (ends s a))\<rparr>"

definition upd_server :: "addr \<Rightarrow> (pipe_server \<Rightarrow> pipe_server) \<Rightarrow> sys \<Rightarrow> sys" where
  "upd_server a f s = s\<lparr>servers := (servers s)(a := f (servers s a))\<rparr>"

definition upd_client :: "addr \<Rightarrow> (pipe_client \<Rightarrow> pipe_client) \<Rightarrow> sys \<Rightarrow> sys" where
  "upd_client a f s = s\<lparr>clients := (clients s)(a := f (clients s a))\<rparr>"

definition upd_pipe :: "addr \<Rightarrow> (named_pipe \<Rightarrow> named_pipe) \<Rightarrow> sys \<Rightarrow> sys" where
  "upd_pipe a f s = s\<lparr>pipes := (pipes s)(a := f (pipes s a))\<rparr>"

definition upd_fd :: "addr \<Rightarrow> (fd_obj \<Rightarrow> fd_obj) \<Rightarrow> sys \<Rightarrow> sys" where
  "upd_fd a f s = s\<lparr>fds := (fds s)(a := f (fds s a))\<rparr>"

definition upd_iosb :: "addr \<Rightarrow> (iosb \<Rightarrow> iosb) \<Rightarrow> sys \<Rightarrow> sys" where
  "upd_iosb a f s = s\<lparr>iosbs := (iosbs s)(a := f (iosbs s a))\<rparr>"

definition c_assert :: "bool \<Rightarrow> sys \<Rightarrow> sys option" where
  "c_assert b s = (if b then Some s else None)"

definition set_error :: "ntstatus \<Rightarrow> sys \<Rightarrow> sys" where
  "set_error status s = s\<lparr>cur_error := status\<rparr>"

definition clear_error :: "sys \<Rightarrow> sys" where
  "clear_error s = s\<lparr>cur_error := STATUS_SUCCESS\<rparr>"

definition log_event :: "event \<Rightarrow> sys \<Rightarrow> sys" where
  "log_event e s = s\<lparr>trace := trace s @ [e]\<rparr>"

text \<open>The next answer of the host to a call that can fail.\<close>

definition host_ok :: "sys \<Rightarrow> bool \<times> sys" where
  "host_ok s = (case host s of [] \<Rightarrow> (True, s) | b # bs \<Rightarrow> (b, s\<lparr>host := bs\<rparr>))"

text \<open>A fresh address from the allocator.\<close>

definition alloc_addr :: "sys \<Rightarrow> addr \<times> sys" where
  "alloc_addr s = (next_addr s, s\<lparr>next_addr := Suc (next_addr s)\<rparr>)"


text \<open>
  Modelled from the spec: \<open>async_complete\<close> is the part of \<^verbatim>\<open>async_terminate\<close> that is done
  before the reselect: it completes an async with a status.  An async that is no longer
  pending is complete already and keeps its status; completing a pending async also
  completes its I/O status block when that is still pending.  The whole of
  \<^verbatim>\<open>async_terminate\<close>, with the reselect it causes, is \<open>async_terminate\<close> below.
\<close>

definition async_complete :: "addr \<Rightarrow> ntstatus \<Rightarrow> sys \<Rightarrow> sys" where
  "async_complete async status s =
     (let s1 = log_event (Ev_async_terminate async status) s in
      if async < length (asyncs s) \<and> a_status (asyncs s ! async) = STATUS_PENDING
      then
        let a = asyncs s ! async; io = a_iosb a in
        s1\<lparr>asyncs := (asyncs s)[async := a\<lparr>a_status := status\<rparr>],
           iosbs := (iosbs s)(io :=
              (if iosb_status (iosbs s io) = STATUS_PENDING
               then (iosbs s io)\<lparr>iosb_status := status\<rparr> else iosbs s io))\<rparr>
      else s1)"

text \<open>
  Modelled from the spec: \<open>fd_async_wake_up\<close> on the wait queue of a file descriptor
  (the only queue type this file uses, \<^verbatim>\<open>ASYNC_TYPE_WAIT\<close>) terminates every async of
  that queue.  These asyncs belong to the wait queue, which is neither the read queue nor
  the write queue of a pipe end, so the reselect that their termination causes does
  nothing in this file (\<open>pipe_end_reselect_async\<close> compares the queue with \<open>read_q\<close> and
  \<open>write_q\<close>): they are completed one after the other.
\<close>

fun complete_all :: "addr list \<Rightarrow> ntstatus \<Rightarrow> sys \<Rightarrow> sys" where
  "complete_all [] status s = s"
| "complete_all (async # queue) status s = complete_all queue status (async_complete async status s)"

definition fd_async_wake_up :: "addr \<Rightarrow> ntstatus \<Rightarrow> sys \<Rightarrow> sys" where
  "fd_async_wake_up fd status s =
     complete_all (fd_wait_q (fds s fd)) status (log_event (Ev_fd_async_wake_up fd status) s)"

definition is_pending :: "sys \<Rightarrow> addr \<Rightarrow> bool" where
  "is_pending s a = (a < length (asyncs s) \<and> a_status (asyncs s ! a) = STATUS_PENDING)"

text \<open>Modelled from the spec: the first async of a queue that is still pending.\<close>

definition find_pending_async :: "addr list option \<Rightarrow> sys \<Rightarrow> addr option" where
  "find_pending_async queue s =
     (case queue of None \<Rightarrow> None | Some q \<Rightarrow> find (is_pending s) q)"

definition async_get_iosb :: "addr \<Rightarrow> sys \<Rightarrow> addr" where
  "async_get_iosb async s = a_iosb (asyncs s ! async)"

definition async_is_blocking :: "addr \<Rightarrow> sys \<Rightarrow> bool" where
  "async_is_blocking async s = a_blocking (asyncs s ! async)"

definition release_async :: "addr \<Rightarrow> sys \<Rightarrow> sys" where
  "release_async async s = log_event (Ev_release_async async) s"

definition set_fd_signaled :: "addr option \<Rightarrow> bool \<Rightarrow> sys \<Rightarrow> sys option" where
  "set_fd_signaled fd signaled s =
     (case fd of None \<Rightarrow> None
      | Some f \<Rightarrow> Some (upd_fd f (\<lambda>d. d\<lparr>fd_signaled := signaled\<rparr>) s))"

definition set_no_fd_status :: "addr option \<Rightarrow> ntstatus \<Rightarrow> sys \<Rightarrow> sys option" where
  "set_no_fd_status fd status s =
     (case fd of None \<Rightarrow> None
      | Some f \<Rightarrow> Some (upd_fd f (\<lambda>d. d\<lparr>fd_no_fd_status := status\<rparr>) s))"

text \<open>
  Modelled from the spec: putting an async on a queue (\<^verbatim>\<open>queue_async\<close>) records the queue
  in the async.
\<close>

definition set_async_queue :: "addr \<Rightarrow> async_queue_ref \<Rightarrow> sys \<Rightarrow> sys" where
  "set_async_queue async queue s =
     s\<lparr>asyncs := (asyncs s)[async := (asyncs s ! async)\<lparr>a_queue := queue\<rparr>]\<rparr>"

text \<open>
  Modelled from the spec: \<open>fd_queue_async\<close> puts an async on the wait queue of a file
  descriptor; it can fail for lack of memory.
\<close>

definition fd_queue_async :: "addr \<Rightarrow> addr \<Rightarrow> sys \<Rightarrow> bool \<times> sys" where
  "fd_queue_async fd async s =
     (case host_ok s of
        (True, s1) \<Rightarrow>
          (True, upd_fd fd (\<lambda>d. d\<lparr>fd_wait_q := fd_wait_q d @ [async]\<rparr>)
                   (set_async_queue async Other_queue s1))
      | (False, s1) \<Rightarrow> (False, set_error STATUS_NO_MEMORY s1))"

definition create_async_queue :: "sys \<Rightarrow> addr list option \<times> sys" where
  "create_async_queue s =
     (case host_ok s of
        (True, s1) \<Rightarrow> (Some [], s1)
      | (False, s1) \<Rightarrow> (None, set_error STATUS_NO_MEMORY s1))"

text \<open>Modelled from the spec: a new handle, or 0 when none can be allocated.\<close>

definition alloc_handle :: "sys \<Rightarrow> nat \<times> sys" where
  "alloc_handle s =
     (case host_ok s of
        (True, s1) \<Rightarrow> (Suc (next_handle s1), s1\<lparr>next_handle := Suc (next_handle s1)\<rparr>)
      | (False, s1) \<Rightarrow> (0, set_error STATUS_NO_MEMORY s1))"

definition close_handle :: "nat \<Rightarrow> sys \<Rightarrow> sys" where
  "close_handle handle s = log_event (Ev_close_handle handle) s"

definition alloc_object :: "object_ops \<Rightarrow> sys \<Rightarrow> addr option \<times> sys" where
  "alloc_object ops s =
     (case host_ok s of
        (True, s1) \<Rightarrow>
          (case alloc_addr s1 of (a, s2) \<Rightarrow> (Some a, s2\<lparr>obj_ops := (obj_ops s2)(a := ops)\<rparr>))
      | (False, s1) \<Rightarrow> (None, set_error STATUS_NO_MEMORY s1))"

text \<open>
  Modelled from the spec: a new file descriptor object, a pseudo-fd (\<open>unix = False\<close>) or
  the wrapper of a host socket (\<open>unix = True\<close>).
\<close>

definition alloc_fd :: "bool \<Rightarrow> sys \<Rightarrow> addr option \<times> sys" where
  "alloc_fd unix s =
     (case host_ok s of
        (True, s1) \<Rightarrow>
          (case alloc_addr s1 of (a, s2) \<Rightarrow>
             (Some a, s2\<lparr>fds := (fds s2)(a :=
                \<lparr>fd_signaled = False, fd_no_fd_status = STATUS_BAD_DEVICE_TYPE,
                 fd_wait_q = [], fd_unix = unix, fd_pollin = False\<rparr>)\<rparr>))
      | (False, s1) \<Rightarrow> (None, set_error STATUS_NO_MEMORY s1))"

subsection \<open>Pipe ends\<close>

definition use_server_io :: "pipe_end \<Rightarrow> bool" where
  "use_server_io pipe_end = (pe_flags pipe_end AND NAMED_PIPE_MESSAGE_STREAM_WRITE \<noteq> 0)"

definition set_server_state :: "addr \<Rightarrow> pipe_state \<Rightarrow> sys \<Rightarrow> sys option" where
  "set_server_state server state s =
     (let s1 = upd_server server (\<lambda>v. v\<lparr>srv_state := state\<rparr>) s in
      case state of
        ps_connected_server \<Rightarrow> c_assert (pe_fd (ends s1 server) \<noteq> None) s1
      | ps_wait_disconnect \<Rightarrow> c_assert (pe_fd (ends s1 server) \<noteq> None) s1
      | ps_wait_open \<Rightarrow>
          do { s2 \<leftarrow> c_assert (pe_fd (ends s1 server) = None) s1;
               set_no_fd_status (srv_ioctl_fd (servers s2 server)) STATUS_PIPE_LISTENING s2 }
      | ps_idle_server \<Rightarrow>
          do { s2 \<leftarrow> c_assert (pe_fd (ends s1 server) = None) s1;
               set_no_fd_status (srv_ioctl_fd (servers s2 server)) STATUS_PIPE_LISTENING s2 }
      | ps_wait_connect \<Rightarrow>
          do { s2 \<leftarrow> c_assert (pe_fd (ends s1 server) = None) s1;
               set_no_fd_status (srv_ioctl_fd (servers s2 server)) STATUS_PIPE_DISCONNECTED s2 })"

definition notify_empty :: "addr \<Rightarrow> sys \<Rightarrow> sys option" where
  "notify_empty server s =
     (if \<not> srv_flush_poll (servers s server) then Some s
      else do {
        s1 \<leftarrow> c_assert (srv_state (servers s server) = ps_connected_server) s;
        let s2 = upd_server server (\<lambda>v. v\<lparr>srv_flush_poll := False\<rparr>) s1;
        case pe_fd (ends s2 server) of
          None \<Rightarrow> None
        | Some fd \<Rightarrow> Some (fd_async_wake_up fd STATUS_SUCCESS s2) })"

text \<open>
  \<open>wake_message\<close> works on one message of a queue: it returns the message as it stands
  afterwards, and the new memory.
\<close>

definition wake_message :: "pipe_message \<Rightarrow> sys \<Rightarrow> pipe_message \<times> sys" where
  "wake_message message s =
     (let async = msg_async message;
          message' = message\<lparr>msg_async := None\<rparr>;
          s1 = upd_iosb (msg_iosb message) (\<lambda>io. io\<lparr>iosb_status := STATUS_SUCCESS\<rparr>) s;
          s2 = upd_iosb (msg_iosb message) (\<lambda>io. io\<lparr>iosb_result := in_size io\<rparr>) s1
      in case async of
           None \<Rightarrow> (message', s2)
         | Some a \<Rightarrow>
             (message',
              release_async a
                (async_complete a
                   (if iosb_result (iosbs s2 (msg_iosb message)) \<noteq> 0
                    then STATUS_ALERTED else STATUS_SUCCESS) s2)))"

text \<open>
  \<open>pipe_data_remaining\<close>: in byte mode the answer is the host's \<^verbatim>\<open>poll\<close> on the client's
  socket, held in the model as \<open>fd_pollin\<close>.
\<close>

definition pipe_data_remaining :: "addr \<Rightarrow> sys \<Rightarrow> bool option" where
  "pipe_data_remaining server s =
     (case srv_client (servers s server) of
        None \<Rightarrow> None
      | Some client \<Rightarrow>
          if use_server_io (ends s server)
          then Some (pe_message_queue (ends s client) \<noteq> [])
          else (case pe_fd (ends s client) of
                  None \<Rightarrow> None
                | Some fd \<Rightarrow> Some (fd_unix (fds s fd) \<and> fd_pollin (fds s fd))))"

definition check_flushed :: "addr \<Rightarrow> sys \<Rightarrow> sys option" where
  "check_flushed server s =
     do {
       remaining \<leftarrow> pipe_data_remaining server s;
       if remaining
       then Some (upd_server server (\<lambda>v. v\<lparr>srv_flush_poll := True\<rparr>) s)
       else (let s1 = upd_server server (\<lambda>v. v\<lparr>srv_flush_poll := False\<rparr>) s
             in case pe_fd (ends s1 server) of
                  None \<Rightarrow> None
                | Some fd \<Rightarrow> Some (fd_async_wake_up fd STATUS_SUCCESS s1))
     }"

text \<open>
  The fd operations return a wait handle (0 for none) together with the new memory; the
  status of the operation is the error left in \<open>cur_error\<close>.
\<close>

definition pipe_end_flush :: "addr \<Rightarrow> addr \<Rightarrow> sys \<Rightarrow> (nat \<times> sys) option" where
  "pipe_end_flush pipe_end async s =
     (if use_server_io (ends s pipe_end) \<and>
         (case pe_connection (ends s pipe_end) of
            None \<Rightarrow> True
          | Some c \<Rightarrow> pe_message_queue (ends s c) = [])
      then Some (0, s)
      else
        (case pe_fd (ends s pipe_end) of
           None \<Rightarrow> None
         | Some fd \<Rightarrow>
             (case fd_queue_async fd async s of
                (False, s1) \<Rightarrow> Some (0, s1)
              | (True, s1) \<Rightarrow>
                  if \<not> async_is_blocking async s1 then Some (0, set_error STATUS_PENDING s1)
                  else (case alloc_handle s1 of
                          (handle, s2) \<Rightarrow>
                            if handle \<noteq> 0 then Some (handle, set_error STATUS_PENDING s2)
                            else Some (handle, s2)))))"

definition pipe_server_flush :: "addr option \<Rightarrow> addr \<Rightarrow> sys \<Rightarrow> (nat \<times> sys) option" where
  "pipe_server_flush user async s =
     (case user of
        None \<Rightarrow> Some (0, s)
      | Some server \<Rightarrow>
          if srv_state (servers s server) \<noteq> ps_connected_server then Some (0, s)
          else do {
            remaining \<leftarrow> pipe_data_remaining server s;
            if \<not> remaining then Some (0, s)
            else do {
              (handle, s1) \<leftarrow> pipe_end_flush server async s;
              if handle \<noteq> 0 \<and> \<not> use_server_io (ends s1 server) \<and> \<not> srv_flush_poll (servers s1 server)
              then Some (handle, upd_server server (\<lambda>v. v\<lparr>srv_flush_poll := True\<rparr>) s1)
              else Some (handle, s1)
            }
          })"

definition pipe_client_flush :: "addr \<Rightarrow> addr \<Rightarrow> sys \<Rightarrow> (nat \<times> sys) option" where
  "pipe_client_flush pipe_end async s =
     (if use_server_io (ends s pipe_end) then pipe_end_flush pipe_end async s else Some (0, s))"


subsection \<open>Reading and writing in message mode\<close>


definition bytes_at :: "byte list option \<Rightarrow> data_size_t \<Rightarrow> data_size_t \<Rightarrow> byte list" where
  "bytes_at d pos n = take (unat n) (drop (unat pos) (case d of None \<Rightarrow> [] | Some bs \<Rightarrow> bs))"

fun read_avail :: "data_size_t \<Rightarrow> data_size_t \<Rightarrow> pipe_message list \<Rightarrow> sys \<Rightarrow> data_size_t" where
  "read_avail out avail [] s = avail"
| "read_avail out avail (message # rest) s =
     (let avail' = avail + (in_size (iosbs s (msg_iosb message)) - read_pos message)
      in if avail' \<ge> out then avail' else read_avail out avail' rest s)"

lemma ends_async_complete [simp]: "ends (async_complete a st s) = ends s"
  by (simp add: async_complete_def log_event_def Let_def)

lemma ends_wake_message [simp]: "ends (snd (wake_message m s)) = ends s"
  by (simp add: wake_message_def Let_def release_async_def log_event_def upd_iosb_def split: option.split)

lemma out_size_async_complete [simp]:
  "out_size (iosbs (async_complete a st s) i) = out_size (iosbs s i)"
  by (simp add: async_complete_def log_event_def Let_def)

lemma out_size_wake_message [simp]:
  "out_size (iosbs (snd (wake_message m s)) i) = out_size (iosbs s i)"
  by (simp add: wake_message_def Let_def release_async_def log_event_def upd_iosb_def split: option.split)

text \<open>
  The body of the do-while loop of \<open>message_queue_read\<close>, on the head \<open>message\<close> of the
  queue with \<open>rest\<close> behind it: it returns the new \<open>write_pos\<close>, the bytes copied so far
  and the new memory.
\<close>

definition copy_step ::
  "addr \<Rightarrow> addr \<Rightarrow> data_size_t \<Rightarrow> byte list \<Rightarrow> pipe_message \<Rightarrow> pipe_message list \<Rightarrow> sys
   \<Rightarrow> data_size_t \<times> byte list \<times> sys" where
  "copy_step pipe_end iosb write_pos buf message rest s =
     (let mi = iosbs s (msg_iosb message);
          writing = min (out_size (iosbs s iosb) - write_pos) (in_size mi - read_pos message);
          buf' = (if writing \<noteq> 0
                  then buf @ bytes_at (in_data mi) (read_pos message) writing else buf);
          write_pos' = write_pos + writing;
          message' = message\<lparr>read_pos := read_pos message + writing\<rparr>;
          s1 = upd_end pipe_end (\<lambda>e. e\<lparr>pe_message_queue := message' # rest\<rparr>) s;
          s2 = (if read_pos message' = in_size (iosbs s1 (msg_iosb message'))
                then upd_end pipe_end (\<lambda>e. e\<lparr>pe_message_queue := rest\<rparr>)
                       (snd (wake_message message' s1))
                else s1)
      in (write_pos', buf', s2))"

lemma copy_step_progress:
  "copy_step pipe_end iosb write_pos buf message rest s = (write_pos', buf', s2) \<Longrightarrow>
   write_pos' < out_size (iosbs s2 iosb) \<Longrightarrow>
   pe_message_queue (ends s2 pipe_end) = rest"
  by (auto simp: copy_step_def Let_def upd_end_def min_def split: if_splits)

function copy_messages :: "addr \<Rightarrow> addr \<Rightarrow> data_size_t \<Rightarrow> byte list \<Rightarrow> sys \<Rightarrow> (byte list \<times> sys) option" where
  "copy_messages pipe_end iosb write_pos buf s =
     (case pe_message_queue (ends s pipe_end) of
        [] \<Rightarrow> None
      | message # rest \<Rightarrow>
          (case copy_step pipe_end iosb write_pos buf message rest s of
             (write_pos', buf', s2) \<Rightarrow>
               if write_pos' < out_size (iosbs s2 iosb)
               then copy_messages pipe_end iosb write_pos' buf' s2
               else Some (buf', s2)))"
  by pat_completeness auto
termination
  apply (relation "measure (\<lambda>(pipe_end, iosb, write_pos, buf, s).
        length (pe_message_queue (ends s pipe_end)))")
   apply simp
  subgoal premises p for pipe_end iosb write_pos buf s message rest write_pos' y buf' s2
  proof -
    have st: "copy_step pipe_end iosb write_pos buf message rest s = (write_pos', buf', s2)"
      using p(2,3) by metis
    show ?thesis using copy_step_progress [OF st p(4)] p(1) by simp
  qed
  done

declare copy_messages.simps [simp del]


text \<open>
  The first part of \<open>message_queue_read\<close>, on the head \<open>message\<close> of the queue with
  \<open>rest\<close> behind it: the size and the status of the read, set in the reader's status
  block.
\<close>

definition read_size :: "addr \<Rightarrow> addr \<Rightarrow> pipe_message \<Rightarrow> pipe_message list \<Rightarrow> sys \<Rightarrow> sys" where
  "read_size pipe_end iosb message rest s =
     (if pe_flags (ends s pipe_end) AND NAMED_PIPE_MESSAGE_STREAM_READ \<noteq> 0
      then
        (let sa = upd_iosb iosb (\<lambda>io. io\<lparr>out_size :=
                    min (out_size io)
                        (in_size (iosbs s (msg_iosb message)) - read_pos message)\<rparr>) s
         in upd_iosb iosb (\<lambda>io. io\<lparr>iosb_status :=
              (if read_pos message + out_size (iosbs sa iosb)
                    < in_size (iosbs sa (msg_iosb message))
               then STATUS_BUFFER_OVERFLOW else STATUS_SUCCESS)\<rparr>) sa)
      else
        (let avail = read_avail (out_size (iosbs s iosb)) 0 (message # rest) s;
             sa = upd_iosb iosb (\<lambda>io. io\<lparr>out_size := min (out_size io) avail\<rparr>) s
         in upd_iosb iosb (\<lambda>io. io\<lparr>iosb_status := STATUS_SUCCESS\<rparr>) sa))"

definition message_queue_read :: "addr \<Rightarrow> addr \<Rightarrow> sys \<Rightarrow> sys option" where
  "message_queue_read pipe_end iosb s =
     (case pe_message_queue (ends s pipe_end) of
        [] \<Rightarrow> None
      | message # rest \<Rightarrow>
          (let s1 = read_size pipe_end iosb message rest s
           in
             if read_pos message = 0 \<and>
                in_size (iosbs s1 (msg_iosb message)) = out_size (iosbs s1 iosb)
             then
               (let data = in_data (iosbs s1 (msg_iosb message));
                    s2 = upd_iosb iosb (\<lambda>io. io\<lparr>out_data := data\<rparr>) s1;
                    s3 = upd_iosb (msg_iosb message) (\<lambda>io. io\<lparr>in_data := None\<rparr>) s2;
                    s4 = snd (wake_message message s3);
                    s5 = upd_end pipe_end (\<lambda>e. e\<lparr>pe_message_queue := rest\<rparr>) s4
                in Some (upd_iosb iosb (\<lambda>io. io\<lparr>iosb_result := out_size io\<rparr>) s5))
             else
               (if out_size (iosbs s1 iosb) \<noteq> 0
                then
                  (case host_ok s1 of
                     (False, s2) \<Rightarrow>
                       Some (upd_iosb iosb
                               (\<lambda>io. io\<lparr>out_data := None, out_size := 0,
                                         iosb_status := STATUS_NO_MEMORY\<rparr>) s2)
                   | (True, s2) \<Rightarrow>
                       do {
                         (buf, s3) \<leftarrow> copy_messages pipe_end iosb 0 [] s2;
                         let s4 = upd_iosb iosb (\<lambda>io. io\<lparr>out_data := Some buf\<rparr>) s3;
                         Some (upd_iosb iosb (\<lambda>io. io\<lparr>iosb_result := out_size io\<rparr>) s4)
                       })
                else
                  do {
                    (buf, s3) \<leftarrow> copy_messages pipe_end iosb 0 [] s1;
                    Some (upd_iosb iosb (\<lambda>io. io\<lparr>iosb_result := out_size io\<rparr>) s3)
                  })))"

text \<open>No async and no status block goes back to pending.\<close>

definition settles :: "sys \<Rightarrow> sys \<Rightarrow> bool" where
  "settles s s' =
     (length (asyncs s') = length (asyncs s) \<and>
      (\<forall>i < length (asyncs s). a_status (asyncs s' ! i) = STATUS_PENDING \<longrightarrow>
                                 a_status (asyncs s ! i) = STATUS_PENDING) \<and>
      (\<forall>i. iosb_status (iosbs s' i) = STATUS_PENDING \<longrightarrow> iosb_status (iosbs s i) = STATUS_PENDING))"

definition pending_count :: "sys \<Rightarrow> nat" where
  "pending_count s = length (filter (\<lambda>a. a_status a = STATUS_PENDING) (asyncs s))"

lemma settles_refl [simp]: "settles s s"
  by (simp add: settles_def)

lemma settles_trans: "settles s s' \<Longrightarrow> settles s' s'' \<Longrightarrow> settles s s''"
  by (auto simp: settles_def)

lemma filter_length_mono:
  "length xs = length ys \<Longrightarrow> (\<forall>i < length xs. P (ys ! i) \<longrightarrow> P (xs ! i)) \<Longrightarrow>
   length (filter P ys) \<le> length (filter P xs)"
proof (induction xs ys rule: list_induct2)
  case Nil
  then show ?case by simp
next
  case (Cons x xs y ys)
  have "\<forall>i < length xs. P (ys ! i) \<longrightarrow> P (xs ! i)"
    using Cons.prems by (metis Suc_less_eq length_Cons nth_Cons_Suc)
  then have "length (filter P ys) \<le> length (filter P xs)" by (rule Cons.IH)
  moreover have "P y \<longrightarrow> P x" using Cons.prems by (metis length_Cons nth_Cons_0 zero_less_Suc)
  ultimately show ?case by auto
qed

lemma filter_length_less:
  "length xs = length ys \<Longrightarrow> (\<forall>i < length xs. P (ys ! i) \<longrightarrow> P (xs ! i)) \<Longrightarrow>
   k < length xs \<Longrightarrow> P (xs ! k) \<Longrightarrow> \<not> P (ys ! k) \<Longrightarrow>
   length (filter P ys) < length (filter P xs)"
proof (induction xs ys arbitrary: k rule: list_induct2)
  case Nil
  then show ?case by simp
next
  case (Cons x xs y ys)
  have tl: "\<forall>i < length xs. P (ys ! i) \<longrightarrow> P (xs ! i)"
    using Cons.prems(1) by (metis Suc_less_eq length_Cons nth_Cons_Suc)
  have hd: "P y \<longrightarrow> P x" using Cons.prems(1) by (metis length_Cons nth_Cons_0 zero_less_Suc)
  show ?case
  proof (cases k)
    case 0
    with Cons.prems have "P x" "\<not> P y" by simp_all
    moreover have "length (filter P ys) \<le> length (filter P xs)"
      using Cons.hyps tl by (rule filter_length_mono)
    ultimately show ?thesis by simp
  next
    case (Suc j)
    with Cons.prems have j: "j < length xs" "P (xs ! j)" "\<not> P (ys ! j)" by simp_all
    have "length (filter P ys) < length (filter P xs)"
      using tl j by (rule Cons.IH)
    with hd show ?thesis by auto
  qed
qed

lemma settles_count: "settles s s' \<Longrightarrow> pending_count s' \<le> pending_count s"
  unfolding settles_def pending_count_def
  by (intro filter_length_mono) auto

lemma settles_count_less:
  "settles s s' \<Longrightarrow> is_pending s a \<Longrightarrow> \<not> is_pending s' a \<Longrightarrow> pending_count s' < pending_count s"
  unfolding settles_def pending_count_def is_pending_def
  by (rule filter_length_less [where k = a]) auto


lemma settles_async_complete [simp]: "settles s (async_complete a st s)"
  by (auto simp: settles_def async_complete_def log_event_def Let_def nth_list_update)

lemma settles_release_async [simp]: "settles s (release_async a s)"
  by (simp add: settles_def release_async_def log_event_def)

lemma settles_upd_end [simp]: "settles s (upd_end a f s)"
  by (simp add: settles_def upd_end_def)

lemma settles_upd_iosb:
  "(iosb_status (f (iosbs s a)) = STATUS_PENDING \<longrightarrow> iosb_status (iosbs s a) = STATUS_PENDING)
   \<Longrightarrow> settles s (upd_iosb a f s)"
  by (simp add: settles_def upd_iosb_def)

lemma settles_wake_message [simp]: "settles s (snd (wake_message m s))"
proof -
  let ?s2 = "upd_iosb (msg_iosb m) (\<lambda>io. io\<lparr>iosb_result := in_size io\<rparr>)
               (upd_iosb (msg_iosb m) (\<lambda>io. io\<lparr>iosb_status := STATUS_SUCCESS\<rparr>) s)"
  have a: "settles s ?s2"
    by (simp add: settles_def upd_iosb_def)
  show ?thesis
  proof (cases "msg_async m")
    case None
    then show ?thesis using a by (simp add: wake_message_def Let_def)
  next
    case (Some x)
    have "settles ?s2 (release_async x (async_complete x
            (if iosb_result (iosbs ?s2 (msg_iosb m)) \<noteq> 0 then STATUS_ALERTED else STATUS_SUCCESS) ?s2))"
      by (rule settles_trans [OF settles_async_complete settles_release_async])
    with a have "settles s (release_async x (async_complete x
            (if iosb_result (iosbs ?s2 (msg_iosb m)) \<noteq> 0 then STATUS_ALERTED else STATUS_SUCCESS) ?s2))"
      by (rule settles_trans)
    then show ?thesis using Some by (simp add: wake_message_def Let_def)
  qed
qed

lemma settles_host_ok [simp]: "settles s (snd (host_ok s))"
  by (simp add: settles_def host_ok_def split: list.split)



lemma settles_copy_step:
  "copy_step pipe_end iosb write_pos buf message rest s = (write_pos', buf', s2) \<Longrightarrow> settles s s2"
proof -
  assume a: "copy_step pipe_end iosb write_pos buf message rest s = (write_pos', buf', s2)"
  let ?m = "message\<lparr>read_pos := read_pos message + min (out_size (iosbs s iosb) - write_pos)
        (in_size (iosbs s (msg_iosb message)) - read_pos message)\<rparr>"
  let ?s1 = "upd_end pipe_end (\<lambda>e. e\<lparr>pe_message_queue := ?m # rest\<rparr>) s"
  have 1: "settles s ?s1" by (rule settles_upd_end)
  have 2: "settles ?s1 (upd_end pipe_end (\<lambda>e. e\<lparr>pe_message_queue := rest\<rparr>) (snd (wake_message ?m ?s1)))"
    by (rule settles_trans [OF settles_wake_message settles_upd_end])
  from a have "s2 = ?s1 \<or> s2 = upd_end pipe_end (\<lambda>e. e\<lparr>pe_message_queue := rest\<rparr>) (snd (wake_message ?m ?s1))"
    by (auto simp: copy_step_def Let_def split: if_splits)
  then show ?thesis using 1 settles_trans [OF 1 2] by auto
qed

lemma settles_copy_messages:
  "copy_messages pipe_end iosb write_pos buf s = Some (buf', s') \<Longrightarrow> settles s s'"
proof (induction pipe_end iosb write_pos buf s rule: copy_messages.induct)
  case (1 pipe_end iosb write_pos buf s)
  note eq = "1.prems" [unfolded copy_messages.simps [of pipe_end iosb write_pos buf s]]
  show ?case
  proof (cases "pe_message_queue (ends s pipe_end)")
    case Nil
    with eq show ?thesis by simp
  next
    case (Cons message rest)
    obtain wp b s2 where st: "copy_step pipe_end iosb write_pos buf message rest s = (wp, b, s2)"
      by (cases "copy_step pipe_end iosb write_pos buf message rest s") auto
    have s12: "settles s s2" using st by (rule settles_copy_step)
    show ?thesis
    proof (cases "wp < out_size (iosbs s2 iosb)")
      case True
      have "settles s2 s'"
        using "1.IH" [OF Cons st [symmetric] refl True] eq Cons st True by simp
      with s12 show ?thesis by (rule settles_trans)
    next
      case False
      with eq Cons st have "s' = s2" by simp
      with s12 show ?thesis by simp
    qed
  qed
qed


lemma settles_iosb:
  "settles s s' \<Longrightarrow> iosb_status (iosbs s i) \<noteq> STATUS_PENDING \<Longrightarrow>
   iosb_status (iosbs s' i) \<noteq> STATUS_PENDING"
  by (auto simp: settles_def)

lemma settles_not_pending:
  "settles s s' \<Longrightarrow> \<not> is_pending s a \<Longrightarrow> \<not> is_pending s' a"
  by (auto simp: settles_def is_pending_def)

lemma settles_upd_iosb_trans:
  "settles s s1 \<Longrightarrow>
   (iosb_status (f (iosbs s1 a)) = STATUS_PENDING \<longrightarrow> iosb_status (iosbs s1 a) = STATUS_PENDING)
   \<Longrightarrow> settles s (upd_iosb a f s1)"
  by (rule settles_trans [OF _ settles_upd_iosb])

lemma iosb_status_upd_iosb_other [simp]:
  "iosb_status (iosbs (upd_iosb a (\<lambda>io. io\<lparr>iosb_result := g io\<rparr>) s) i) = iosb_status (iosbs s i)"
  "iosb_status (iosbs (upd_iosb a (\<lambda>io. io\<lparr>out_data := d io\<rparr>) s) i) = iosb_status (iosbs s i)"
  "iosb_status (iosbs (upd_iosb a (\<lambda>io. io\<lparr>in_data := d io\<rparr>) s) i) = iosb_status (iosbs s i)"
  "iosb_status (iosbs (upd_iosb a (\<lambda>io. io\<lparr>out_size := h io\<rparr>) s) i) = iosb_status (iosbs s i)"
  by (simp_all add: upd_iosb_def)

lemma message_queue_read_settles:
  assumes "message_queue_read pipe_end iosb s = Some s'"
  shows "settles s s' \<and> iosb_status (iosbs s' iosb) \<noteq> STATUS_PENDING"
proof (cases "pe_message_queue (ends s pipe_end)")
  case Nil
  with assms show ?thesis by (simp add: message_queue_read_def)
next
  case (Cons message rest)
  define s1 where "s1 = read_size pipe_end iosb message rest s"
  have a1: "settles s s1"
    unfolding s1_def read_size_def Let_def
    by (auto intro!: settles_upd_iosb_trans settles_upd_iosb)
  have b1: "iosb_status (iosbs s1 iosb) \<noteq> STATUS_PENDING"
    unfolding s1_def read_size_def Let_def by (simp add: upd_iosb_def)
  have "settles s1 s' \<and> iosb_status (iosbs s' iosb) \<noteq> STATUS_PENDING"
  proof (cases "read_pos message = 0 \<and>
                in_size (iosbs s1 (msg_iosb message)) = out_size (iosbs s1 iosb)")
    case True
    let ?s3 = "upd_iosb (msg_iosb message) (\<lambda>io. io\<lparr>in_data := None\<rparr>)
                (upd_iosb iosb (\<lambda>io. io\<lparr>out_data := in_data (iosbs s1 (msg_iosb message))\<rparr>) s1)"
    let ?s5 = "upd_end pipe_end (\<lambda>e. e\<lparr>pe_message_queue := rest\<rparr>) (snd (wake_message message ?s3))"
    have s': "s' = upd_iosb iosb (\<lambda>io. io\<lparr>iosb_result := out_size io\<rparr>) ?s5"
      using assms Cons True by (simp add: message_queue_read_def Let_def s1_def [symmetric])
    have "settles s1 ?s3"
      by (intro settles_upd_iosb_trans settles_upd_iosb) simp_all
    then have "settles s1 ?s5"
      by (intro settles_trans [OF _ settles_upd_end] settles_trans [OF _ settles_wake_message])
    then have "settles s1 s'"
      unfolding s' by (rule settles_upd_iosb_trans) simp
    with b1 show ?thesis by (auto dest: settles_iosb)
  next
    case False
    show ?thesis
    proof (cases "out_size (iosbs s1 iosb) \<noteq> 0 \<and> \<not> fst (host_ok s1)")
      case True
      then have "s' = upd_iosb iosb (\<lambda>io. io\<lparr>out_data := None, out_size := 0,
                                         iosb_status := STATUS_NO_MEMORY\<rparr>) (snd (host_ok s1))"
        using assms Cons False
        by (auto simp: message_queue_read_def Let_def s1_def [symmetric] split: prod.splits bool.splits)
      moreover have "settles s1 (upd_iosb iosb (\<lambda>io. io\<lparr>out_data := None, out_size := 0,
                                         iosb_status := STATUS_NO_MEMORY\<rparr>) (snd (host_ok s1)))"
        by (rule settles_upd_iosb_trans [OF settles_host_ok]) simp
      ultimately show ?thesis
        by (simp add: upd_iosb_def)
    next
      case nomem: False
      define s2 where "s2 = (if out_size (iosbs s1 iosb) \<noteq> 0 then snd (host_ok s1) else s1)"
      have s12: "settles s1 s2" by (simp add: s2_def)
      obtain buf s3 where c: "copy_messages pipe_end iosb 0 [] s2 = Some (buf, s3)"
        and s': "s' = upd_iosb iosb (\<lambda>io. io\<lparr>iosb_result := out_size io\<rparr>) s3
               \<or> s' = upd_iosb iosb (\<lambda>io. io\<lparr>iosb_result := out_size io\<rparr>)
                         (upd_iosb iosb (\<lambda>io. io\<lparr>out_data := Some buf\<rparr>) s3)"
        using assms Cons False nomem
        by (auto simp: message_queue_read_def Let_def s1_def [symmetric] s2_def
                 split: prod.splits bool.splits if_splits bind_splits)
      have "settles s2 s3" using c by (rule settles_copy_messages)
      with s12 have 13: "settles s1 s3" by (rule settles_trans)
      from s' have "settles s3 s'"
        by (auto intro!: settles_upd_iosb_trans settles_upd_iosb)
      with 13 have "settles s1 s'" by (rule settles_trans)
      with b1 show ?thesis by (auto dest: settles_iosb)
    qed
  qed
  with a1 show ?thesis by (auto intro: settles_trans)
qed


lemma find_pending_async_pending:
  "find_pending_async q s = Some a \<Longrightarrow> is_pending s a"
  by (auto simp: find_pending_async_def find_Some_iff split: option.splits)

lemma not_pending_async_complete:
  "st \<noteq> STATUS_PENDING \<Longrightarrow> \<not> is_pending (async_complete a st s) a"
  by (auto simp: is_pending_def async_complete_def log_event_def Let_def)

text \<open>
  The body of the while loop of \<open>reselect_read_queue\<close> for the pending read \<open>async\<close>.
  The references that \<^verbatim>\<open>find_pending_async\<close> and \<^verbatim>\<open>async_get_iosb\<close> take are given back
  at the end of the body and leave no mark.
\<close>

definition read_step :: "addr \<Rightarrow> addr \<Rightarrow> sys \<Rightarrow> sys option" where
  "read_step pipe_end async s =
     (let iosb = async_get_iosb async s in
      do {
        s1 \<leftarrow> message_queue_read pipe_end iosb s;
        Some (async_complete async
                (if iosb_result (iosbs s1 iosb) \<noteq> 0 then STATUS_ALERTED
                 else iosb_status (iosbs s1 iosb)) s1)
      })"

lemma read_step_settles:
  assumes "read_step pipe_end async s = Some s'"
  shows "settles s s'" and "\<not> is_pending s' async"
proof -
  let ?iosb = "async_get_iosb async s"
  obtain s1 where 1: "message_queue_read pipe_end ?iosb s = Some s1"
    and 2: "s' = async_complete async
                (if iosb_result (iosbs s1 ?iosb) \<noteq> 0 then STATUS_ALERTED
                 else iosb_status (iosbs s1 ?iosb)) s1"
    using assms by (auto simp: read_step_def Let_def split: bind_splits)
  from 1 have a: "settles s s1" and b: "iosb_status (iosbs s1 ?iosb) \<noteq> STATUS_PENDING"
    using message_queue_read_settles by blast+
  show "settles s s'" unfolding 2 by (rule settles_trans [OF a settles_async_complete])
  show "\<not> is_pending s' async" unfolding 2 using b by (intro not_pending_async_complete) simp
qed

function read_pending :: "addr \<Rightarrow> bool \<Rightarrow> sys \<Rightarrow> (bool \<times> sys) option" where
  "read_pending pipe_end read_done s =
     (if pe_message_queue (ends s pipe_end) \<noteq> []
      then
        (case find_pending_async (pe_read_q (ends s pipe_end)) s of
           None \<Rightarrow> Some (read_done, s)
         | Some async \<Rightarrow>
             (case read_step pipe_end async s of
                None \<Rightarrow> None
              | Some s1 \<Rightarrow> read_pending pipe_end True s1))
      else Some (read_done, s))"
  by pat_completeness auto
termination
  apply (relation "measure (\<lambda>(pipe_end, read_done, s). pending_count s)")
   apply simp
  subgoal premises p for pipe_end read_done s async s1
    using settles_count_less [OF read_step_settles(1) [OF p(3)]
            find_pending_async_pending [OF p(2)] read_step_settles(2) [OF p(3)]]
    by simp
  done

declare read_pending.simps [simp del]

lemma read_pending_settles:
  "read_pending pipe_end read_done s = Some (done', s') \<Longrightarrow>
   settles s s' \<and> (done' \<and> \<not> read_done \<longrightarrow> pending_count s' < pending_count s)"
proof (induction pipe_end read_done s rule: read_pending.induct)
  case (1 pipe_end read_done s)
  note eq = "1.prems" [unfolded read_pending.simps [of pipe_end read_done s]]
  show ?case
  proof (cases "pe_message_queue (ends s pipe_end) \<noteq> []")
    case False
    with eq show ?thesis by simp
  next
    case True
    show ?thesis
    proof (cases "find_pending_async (pe_read_q (ends s pipe_end)) s")
      case None
      with eq True show ?thesis by simp
    next
      case (Some async)
      with eq True obtain s1 where s1: "read_step pipe_end async s = Some s1"
        and r: "read_pending pipe_end True s1 = Some (done', s')"
        by (auto split: option.splits)
      have a: "settles s s1" and b: "\<not> is_pending s1 async"
        using read_step_settles [OF s1] by simp_all
      have c: "settles s1 s'" using "1.IH" [OF True Some s1 r] by simp
      have "pending_count s1 < pending_count s"
        using a find_pending_async_pending [OF Some] b by (rule settles_count_less)
      moreover have "pending_count s' \<le> pending_count s1" using c by (rule settles_count)
      ultimately show ?thesis using settles_trans [OF a c] by simp
    qed
  qed
qed

text \<open>
  The walk of \<open>reselect_write_queue\<close> over the reader's queue
  (\<^verbatim>\<open>LIST_FOR_EACH_ENTRY_SAFE\<close>), with the running \<open>avail\<close>: it returns the messages that
  stay in the queue, as they stand afterwards.
\<close>

fun write_walk :: "addr \<Rightarrow> data_size_t \<Rightarrow> pipe_message list \<Rightarrow> sys \<Rightarrow> pipe_message list \<times> sys" where
  "write_walk reader avail [] s = ([], s)"
| "write_walk reader avail (message # next) s =
     (let completed =
            (case msg_async message of
               None \<Rightarrow> None
             | Some a \<Rightarrow>
                 if iosb_status (iosbs s (msg_iosb message)) \<noteq> STATUS_PENDING
                 then Some a else None)
      in case completed of
           Some a \<Rightarrow> write_walk reader avail next (release_async a s)
         | None \<Rightarrow>
             (let avail' = avail + (in_size (iosbs s (msg_iosb message)) - read_pos message)
              in if iosb_status (iosbs s (msg_iosb message)) = STATUS_PENDING \<and>
                    (avail' \<le> pe_buffer_size (ends s reader) \<or>
                     in_size (iosbs s (msg_iosb message)) = 0)
                 then (case wake_message message s of
                         (message', s1) \<Rightarrow>
                           (case write_walk reader avail' next s1 of
                              (kept, s2) \<Rightarrow> (message' # kept, s2)))
                 else (case write_walk reader avail' next s of
                         (kept, s2) \<Rightarrow> (message # kept, s2))))"

lemma settles_write_walk: "settles s (snd (write_walk reader avail q s))"
proof (induction q arbitrary: avail s)
  case Nil
  then show ?case by simp
next
  case (Cons message rest)
  have r: "settles s (snd (write_walk reader av rest (release_async a s)))" for a av
    by (rule settles_trans [OF settles_release_async Cons])
  have w: "settles s (snd (write_walk reader av rest (snd (wake_message message s))))" for av
    by (rule settles_trans [OF settles_wake_message Cons])
  show ?case
    using r w Cons [of s]
    by (simp add: Let_def case_prod_beta split: option.splits)
qed

lemma settles_ignore_reselect [simp]: "settles s (s\<lparr>ignore_reselect := b\<rparr>)"
  by (simp add: settles_def)

lemma pending_count_ignore_reselect [simp]:
  "pending_count (s\<lparr>ignore_reselect := b\<rparr>) = pending_count s"
  by (simp add: pending_count_def)

lemma pending_count_upd_end [simp]: "pending_count (upd_end a f s) = pending_count s"
  by (simp add: pending_count_def upd_end_def)

function reselect_read_queue :: "addr \<Rightarrow> sys \<Rightarrow> sys option"
     and reselect_write_queue :: "addr \<Rightarrow> sys \<Rightarrow> sys option" where
  "reselect_read_queue pipe_end s =
     (case read_pending pipe_end False (s\<lparr>ignore_reselect := True\<rparr>) of
        None \<Rightarrow> None
      | Some (read_done, s1) \<Rightarrow>
          (let s2 = s1\<lparr>ignore_reselect := False\<rparr> in
           case pe_connection (ends s2 pipe_end) of
             None \<Rightarrow> Some s2
           | Some connection \<Rightarrow>
               if pe_message_queue (ends s2 pipe_end) = []
               then (case pe_fd (ends s2 connection) of
                       None \<Rightarrow> None
                     | Some fd \<Rightarrow> Some (fd_async_wake_up fd STATUS_SUCCESS s2))
               else if read_done then reselect_write_queue connection s2
               else Some s2))"
| "reselect_write_queue pipe_end s =
     (case pe_connection (ends s pipe_end) of
        None \<Rightarrow> Some s
      | Some reader \<Rightarrow>
          (case write_walk reader 0 (pe_message_queue (ends s reader))
                  (s\<lparr>ignore_reselect := True\<rparr>) of
             (kept, s1) \<Rightarrow>
               reselect_read_queue reader
                 ((upd_end reader (\<lambda>e. e\<lparr>pe_message_queue := kept\<rparr>) s1)
                    \<lparr>ignore_reselect := False\<rparr>)))"
  by pat_completeness auto
termination
  apply (relation "measure (\<lambda>x. case x of
            Inl (pipe_end, s) \<Rightarrow> 2 * pending_count s + 1
          | Inr (pipe_end, s) \<Rightarrow> 2 * pending_count s + 2)")
    apply simp
  subgoal premises p for pipe_end s x2 read_done s1 s2 connection
  proof -
    have "read_pending pipe_end False (s\<lparr>ignore_reselect := True\<rparr>) = Some (read_done, s1)"
      using p(1,2) by simp
    from read_pending_settles [OF this] p(6)
    have "pending_count s1 < pending_count s" by simp
    then show ?thesis using p(3) by simp
  qed
  subgoal premises p for pipe_end s reader kept s1
  proof -
    have "s1 = snd (write_walk reader 0 (pe_message_queue (ends s reader))
                  (s\<lparr>ignore_reselect := True\<rparr>))"
      using p(2) by (metis snd_conv)
    then have "settles (s\<lparr>ignore_reselect := True\<rparr>) s1"
      by (simp add: settles_write_walk)
    from settles_count [OF this] show ?thesis by simp
  qed
  done

declare reselect_read_queue.simps [simp del] reselect_write_queue.simps [simp del]



text \<open>
  Modelled from the spec: the default fd operations of the host (\<^verbatim>\<open>no_fd_read\<close>,
  \<^verbatim>\<open>no_fd_write\<close>, \<^verbatim>\<open>default_fd_ioctl\<close>) fail without touching the pipe.
\<close>

definition no_fd_op :: "sys \<Rightarrow> (nat \<times> sys) option" where
  "no_fd_op s = Some (0, set_error STATUS_NOT_SUPPORTED s)"

text \<open>
  \<^verbatim>\<open>queue_async\<close> on a queue of a pipe end: the async goes to the end of the queue, and
  the queue is recorded in the async (\<open>set_async_queue\<close>).
\<close>

definition queue_async :: "addr list option \<Rightarrow> addr \<Rightarrow> addr list option" where
  "queue_async queue async = map_option (\<lambda>q. q @ [async]) queue"

text \<open>
  The end of \<open>pipe_end_read\<close> and \<open>pipe_end_write\<close>: a caller that does not block gets
  no wait handle while its status block is still pending.
\<close>

definition finish_async :: "addr \<Rightarrow> nat \<Rightarrow> sys \<Rightarrow> nat \<times> sys" where
  "finish_async async handle s =
     (let s1 = set_error STATUS_PENDING s in
      if \<not> async_is_blocking async s1 \<and>
         iosb_status (iosbs s1 (async_get_iosb async s1)) = STATUS_PENDING
      then (0, close_handle handle s1)
      else (handle, s1))"

definition pipe_end_read :: "addr \<Rightarrow> addr \<Rightarrow> sys \<Rightarrow> (nat \<times> sys) option" where
  "pipe_end_read pipe_end async s =
     (if \<not> async < length (asyncs s) then None
      else if \<not> use_server_io (ends s pipe_end) then no_fd_op s
      else if pe_connection (ends s pipe_end) = None \<and> pe_message_queue (ends s pipe_end) = []
      then Some (0, set_error STATUS_PIPE_BROKEN s)
      else
        (case (if pe_read_q (ends s pipe_end) = None then create_async_queue s
               else (pe_read_q (ends s pipe_end), s)) of
           (None, s1) \<Rightarrow> Some (0, s1)
         | (Some q, s1) \<Rightarrow>
             (case alloc_handle (upd_end pipe_end (\<lambda>e. e\<lparr>pe_read_q := Some q\<rparr>) s1) of
                (handle, s2) \<Rightarrow>
                  if handle = 0 then Some (0, s2)
                  else do {
                    s3 \<leftarrow> reselect_read_queue pipe_end
                            (set_async_queue async (Read_q_of pipe_end)
                               (upd_end pipe_end
                                  (\<lambda>e. e\<lparr>pe_read_q := queue_async (pe_read_q e) async\<rparr>) s2));
                    Some (finish_async async handle s3)
                  })))"

definition pipe_end_write :: "addr \<Rightarrow> addr \<Rightarrow> sys \<Rightarrow> (nat \<times> sys) option" where
  "pipe_end_write write_end async s =
     (if \<not> async < length (asyncs s) then None
      else if \<not> use_server_io (ends s write_end) then no_fd_op s
      else
        (case pe_connection (ends s write_end) of
           None \<Rightarrow> Some (0, set_error STATUS_PIPE_DISCONNECTED s)
         | Some read_end \<Rightarrow>
             (case (if pe_write_q (ends s write_end) = None then create_async_queue s
                    else (pe_write_q (ends s write_end), s)) of
                (None, s1) \<Rightarrow> Some (0, s1)
              | (Some q, s1) \<Rightarrow>
                  (case alloc_handle (upd_end write_end (\<lambda>e. e\<lparr>pe_write_q := Some q\<rparr>) s1) of
                     (handle, s2) \<Rightarrow>
                       if handle = 0 then Some (0, s2)
                       else
                         (case host_ok s2 of
                            (False, s3) \<Rightarrow>
                              Some (0, close_handle handle (set_error STATUS_NO_MEMORY s3))
                          | (True, s3) \<Rightarrow>
                              (let message = \<lparr>read_pos = 0, msg_iosb = async_get_iosb async s3,
                                             msg_async = Some async\<rparr>;
                                   s4 = upd_end read_end
                                          (\<lambda>e. e\<lparr>pe_message_queue := pe_message_queue e @ [message]\<rparr>) s3;
                                   s5 = set_async_queue async (Write_q_of write_end)
                                          (upd_end write_end
                                             (\<lambda>e. e\<lparr>pe_write_q := queue_async (pe_write_q e) async\<rparr>) s4)
                               in do {
                                 s6 \<leftarrow> reselect_write_queue write_end s5;
                                 Some (finish_async async handle s6)
                               }))))))"

definition pipe_end_reselect_async :: "addr \<Rightarrow> async_queue_ref \<Rightarrow> sys \<Rightarrow> sys option" where
  "pipe_end_reselect_async pipe_end queue s =
     (if ignore_reselect s then Some s
      else if \<not> use_server_io (ends s pipe_end) then Some s
      else if pe_write_q (ends s pipe_end) \<noteq> None \<and> queue = Write_q_of pipe_end
      then reselect_write_queue pipe_end s
      else if pe_read_q (ends s pipe_end) \<noteq> None \<and> queue = Read_q_of pipe_end
      then reselect_read_queue pipe_end s
      else Some s)"

text \<open>
  \<open>pipe_end_peek\<close> fills the reply of the request, which is not part of the server's
  memory; only its error returns are kept.  16 is the offset of the data in
  \<^verbatim>\<open>FILE_PIPE_PEEK_BUFFER\<close>.
\<close>

definition pipe_end_peek :: "addr \<Rightarrow> nat \<Rightarrow> sys \<Rightarrow> sys" where
  "pipe_end_peek pipe_end reply_size s =
     (if \<not> use_server_io (ends s pipe_end) then set_error STATUS_NOT_SUPPORTED s
      else if reply_size < 16 then set_error STATUS_INFO_LENGTH_MISMATCH s
      else s)"

subsection \<open>What the queue operations keep\<close>

text \<open>
  A relation between memories is closed under the queue operations when it is
  reflexive, transitive, and holds across every elementary change that the reading
  and writing of message queues makes; the queue of an end is only ever replaced by one
  that is not longer.
\<close>

definition queue_closed :: "(sys \<Rightarrow> sys \<Rightarrow> bool) \<Rightarrow> bool" where
  "queue_closed R =
     ((\<forall>s. R s s) \<and>
      (\<forall>s s' s''. R s s' \<longrightarrow> R s' s'' \<longrightarrow> R s s'') \<and>
      (\<forall>s a st. R s (async_complete a st s)) \<and>
      (\<forall>s ev. R s (log_event ev s)) \<and>
      (\<forall>s e q. length q \<le> length (pe_message_queue (ends s e)) \<longrightarrow>
                 R s (upd_end e (\<lambda>x. x\<lparr>pe_message_queue := q\<rparr>) s)) \<and>
      (\<forall>s i f. R s (upd_iosb i f s)) \<and>
      (\<forall>s. R s (snd (host_ok s))) \<and>
      (\<forall>s b. R s (s\<lparr>ignore_reselect := b\<rparr>)))"




lemma ends_release_async: "ends (release_async a s) = ends s"
  by (simp add: release_async_def log_event_def)

lemma ends_write_walk: "ends (snd (write_walk reader avail q s)) = ends s"
proof (induction q arbitrary: avail s)
  case Nil
  then show ?case by simp
next
  case (Cons message rest)
  show ?case
    using Cons [of _ "release_async _ s"] Cons [of _ "snd (wake_message message s)"] Cons [of _ s]
    by (simp add: Let_def case_prod_beta ends_release_async split: option.splits)
qed

lemma write_walk_length: "length (fst (write_walk reader avail q s)) \<le> length q"
proof (induction q arbitrary: avail s)
  case Nil
  then show ?case by simp
next
  case (Cons message rest)
  show ?case
    using Cons [of _ "release_async _ s"] Cons [of _ "snd (wake_message message s)"] Cons [of _ s]
    by (auto simp: Let_def case_prod_beta le_SucI split: option.splits)
qed

lemma qc_refl: "queue_closed R \<Longrightarrow> R s s"
  by (simp add: queue_closed_def)

lemma qc_trans: "queue_closed R \<Longrightarrow> R s s' \<Longrightarrow> R s' s'' \<Longrightarrow> R s s''"
  unfolding queue_closed_def by blast

lemma qc_async_complete: "queue_closed R \<Longrightarrow> R s (async_complete a st s)"
  by (simp add: queue_closed_def)

lemma qc_log_event: "queue_closed R \<Longrightarrow> R s (log_event ev s)"
  by (simp add: queue_closed_def)

lemma qc_release_async: "queue_closed R \<Longrightarrow> R s (release_async a s)"
  by (simp add: release_async_def qc_log_event)

lemma qc_queue:
  "queue_closed R \<Longrightarrow> length q \<le> length (pe_message_queue (ends s e)) \<Longrightarrow>
   R s (upd_end e (\<lambda>x. x\<lparr>pe_message_queue := q\<rparr>) s)"
  by (simp add: queue_closed_def)

lemma qc_upd_iosb: "queue_closed R \<Longrightarrow> R s (upd_iosb i f s)"
  by (simp add: queue_closed_def)

lemma qc_host_ok: "queue_closed R \<Longrightarrow> R s (snd (host_ok s))"
  by (simp add: queue_closed_def)

lemma qc_ignore: "queue_closed R \<Longrightarrow> R s (s\<lparr>ignore_reselect := b\<rparr>)"
  by (simp add: queue_closed_def)

lemma qc_complete_all: "queue_closed R \<Longrightarrow> R s (complete_all q st s)"
proof (induction q arbitrary: s)
  case Nil
  then show ?case by (simp add: qc_refl)
next
  case (Cons a q)
  show ?case
    using qc_trans [OF Cons.prems qc_async_complete [OF Cons.prems] Cons.IH [OF Cons.prems]]
    by simp
qed

lemma qc_fd_async_wake_up: "queue_closed R \<Longrightarrow> R s (fd_async_wake_up fd st s)"
  unfolding fd_async_wake_up_def
  by (rule qc_trans [OF _ qc_log_event qc_complete_all])

lemma qc_wake_message:
  assumes c: "queue_closed R"
  shows "R s (snd (wake_message m s))"
proof -
  let ?s2 = "upd_iosb (msg_iosb m) (\<lambda>io. io\<lparr>iosb_result := in_size io\<rparr>)
               (upd_iosb (msg_iosb m) (\<lambda>io. io\<lparr>iosb_status := STATUS_SUCCESS\<rparr>) s)"
  have a: "R s ?s2" by (rule qc_trans [OF c qc_upd_iosb [OF c] qc_upd_iosb [OF c]])
  show ?thesis
  proof (cases "msg_async m")
    case None
    with a show ?thesis by (simp add: wake_message_def Let_def)
  next
    case (Some x)
    have "R ?s2 (release_async x (async_complete x
            (if iosb_result (iosbs ?s2 (msg_iosb m)) \<noteq> 0 then STATUS_ALERTED else STATUS_SUCCESS) ?s2))"
      by (rule qc_trans [OF c qc_async_complete [OF c] qc_release_async [OF c]])
    with a have "R s (release_async x (async_complete x
            (if iosb_result (iosbs ?s2 (msg_iosb m)) \<noteq> 0 then STATUS_ALERTED else STATUS_SUCCESS) ?s2))"
      by (rule qc_trans [OF c])
    then show ?thesis using Some by (simp add: wake_message_def Let_def)
  qed
qed

lemma qc_copy_step:
  assumes c: "queue_closed R"
    and a: "copy_step pipe_end iosb write_pos buf message rest s = (write_pos', buf', s2)"
    and q: "pe_message_queue (ends s pipe_end) = message # rest"
  shows "R s s2"
proof -
  let ?m = "message\<lparr>read_pos := read_pos message + min (out_size (iosbs s iosb) - write_pos)
        (in_size (iosbs s (msg_iosb message)) - read_pos message)\<rparr>"
  let ?s1 = "upd_end pipe_end (\<lambda>e. e\<lparr>pe_message_queue := ?m # rest\<rparr>) s"
  have 1: "R s ?s1" by (rule qc_queue [OF c]) (simp add: q)
  have 2: "R ?s1 (upd_end pipe_end (\<lambda>e. e\<lparr>pe_message_queue := rest\<rparr>) (snd (wake_message ?m ?s1)))"
    by (rule qc_trans [OF c qc_wake_message [OF c] qc_queue [OF c]]) (simp add: upd_end_def)
  from a have "s2 = ?s1 \<or> s2 = upd_end pipe_end (\<lambda>e. e\<lparr>pe_message_queue := rest\<rparr>) (snd (wake_message ?m ?s1))"
    by (auto simp: copy_step_def Let_def split: if_splits)
  then show ?thesis using 1 qc_trans [OF c 1 2] by auto
qed

lemma qc_copy_messages:
  "copy_messages pipe_end iosb write_pos buf s = Some (buf', s') \<Longrightarrow> queue_closed R \<Longrightarrow> R s s'"
proof (induction pipe_end iosb write_pos buf s rule: copy_messages.induct)
  case (1 pipe_end iosb write_pos buf s)
  note c = "1.prems"(2)
  note eq = "1.prems"(1) [unfolded copy_messages.simps [of pipe_end iosb write_pos buf s]]
  show ?case
  proof (cases "pe_message_queue (ends s pipe_end)")
    case Nil
    with eq show ?thesis by simp
  next
    case (Cons message rest)
    obtain wp b s2 where st: "copy_step pipe_end iosb write_pos buf message rest s = (wp, b, s2)"
      by (cases "copy_step pipe_end iosb write_pos buf message rest s") auto
    have s12: "R s s2" using c st Cons by (rule qc_copy_step)
    show ?thesis
    proof (cases "wp < out_size (iosbs s2 iosb)")
      case True
      have "R s2 s'"
        using "1.IH" [OF Cons st [symmetric] refl True _ c] eq Cons st True by simp
      with s12 show ?thesis by (rule qc_trans [OF c])
    next
      case False
      with eq Cons st have "s' = s2" by simp
      with s12 show ?thesis by simp
    qed
  qed
qed

lemma qc_read_size: "queue_closed R \<Longrightarrow> R s (read_size pipe_end iosb message rest s)"
  unfolding read_size_def Let_def
  by (auto intro: qc_trans [OF _ qc_upd_iosb qc_upd_iosb])

lemma qc_message_queue_read:
  assumes r: "message_queue_read pipe_end iosb s = Some s'" and c: "queue_closed R"
  shows "R s s'"
proof (cases "pe_message_queue (ends s pipe_end)")
  case Nil
  with r show ?thesis by (simp add: message_queue_read_def)
next
  case (Cons message rest)
  define s1 where "s1 = read_size pipe_end iosb message rest s"
  have a1: "R s s1" unfolding s1_def by (rule qc_read_size [OF c])
  note t = qc_trans [OF c]
  have "R s1 s'"
  proof (cases "read_pos message = 0 \<and>
                in_size (iosbs s1 (msg_iosb message)) = out_size (iosbs s1 iosb)")
    case True
    let ?s3 = "upd_iosb (msg_iosb message) (\<lambda>io. io\<lparr>in_data := None\<rparr>)
                (upd_iosb iosb (\<lambda>io. io\<lparr>out_data := in_data (iosbs s1 (msg_iosb message))\<rparr>) s1)"
    let ?s5 = "upd_end pipe_end (\<lambda>e. e\<lparr>pe_message_queue := rest\<rparr>) (snd (wake_message message ?s3))"
    have s': "s' = upd_iosb iosb (\<lambda>io. io\<lparr>iosb_result := out_size io\<rparr>) ?s5"
      using r Cons True by (simp add: message_queue_read_def Let_def s1_def [symmetric])
    have "R s1 ?s3" by (rule t [OF qc_upd_iosb [OF c] qc_upd_iosb [OF c]])
    then have "R s1 (snd (wake_message message ?s3))" by (rule t [OF _ qc_wake_message [OF c]])
    moreover have "pe_message_queue (ends (snd (wake_message message ?s3)) pipe_end) = message # rest"
      using Cons by (simp add: upd_iosb_def s1_def read_size_def Let_def)
    ultimately have "R s1 ?s5" by (intro t [OF _ qc_queue [OF c]]) simp_all
    then show ?thesis unfolding s' by (rule t [OF _ qc_upd_iosb [OF c]])
  next
    case False
    show ?thesis
    proof (cases "out_size (iosbs s1 iosb) \<noteq> 0 \<and> \<not> fst (host_ok s1)")
      case True
      then have "s' = upd_iosb iosb (\<lambda>io. io\<lparr>out_data := None, out_size := 0,
                                         iosb_status := STATUS_NO_MEMORY\<rparr>) (snd (host_ok s1))"
        using r Cons False
        by (auto simp: message_queue_read_def Let_def s1_def [symmetric] split: prod.splits bool.splits)
      then show ?thesis using t [OF qc_host_ok [OF c] qc_upd_iosb [OF c]] by simp
    next
      case nomem: False
      define s2 where "s2 = (if out_size (iosbs s1 iosb) \<noteq> 0 then snd (host_ok s1) else s1)"
      have s12: "R s1 s2" by (simp add: s2_def qc_host_ok [OF c] qc_refl [OF c])
      obtain buf s3 where cm: "copy_messages pipe_end iosb 0 [] s2 = Some (buf, s3)"
        and s': "s' = upd_iosb iosb (\<lambda>io. io\<lparr>iosb_result := out_size io\<rparr>) s3
               \<or> s' = upd_iosb iosb (\<lambda>io. io\<lparr>iosb_result := out_size io\<rparr>)
                         (upd_iosb iosb (\<lambda>io. io\<lparr>out_data := Some buf\<rparr>) s3)"
        using r Cons False nomem
        by (auto simp: message_queue_read_def Let_def s1_def [symmetric] s2_def
                 split: prod.splits bool.splits if_splits bind_splits)
      have "R s2 s3" using cm c by (rule qc_copy_messages)
      with s12 have 13: "R s1 s3" by (rule t)
      from s' have "R s3 s'"
        using qc_upd_iosb [OF c] t [OF qc_upd_iosb [OF c] qc_upd_iosb [OF c]] by auto
      with 13 show ?thesis by (rule t)
    qed
  qed
  with a1 show ?thesis by (rule t)
qed

lemma qc_read_step:
  assumes "read_step pipe_end async s = Some s'" and c: "queue_closed R"
  shows "R s s'"
proof -
  let ?iosb = "async_get_iosb async s"
  obtain s1 where 1: "message_queue_read pipe_end ?iosb s = Some s1"
    and 2: "s' = async_complete async
                (if iosb_result (iosbs s1 ?iosb) \<noteq> 0 then STATUS_ALERTED
                 else iosb_status (iosbs s1 ?iosb)) s1"
    using assms by (auto simp: read_step_def Let_def split: bind_splits)
  show ?thesis unfolding 2
    by (rule qc_trans [OF c qc_message_queue_read [OF 1 c] qc_async_complete [OF c]])
qed

lemma qc_read_pending:
  "read_pending pipe_end read_done s = Some (done', s') \<Longrightarrow> queue_closed R \<Longrightarrow> R s s'"
proof (induction pipe_end read_done s rule: read_pending.induct)
  case (1 pipe_end read_done s)
  note c = "1.prems"(2)
  note eq = "1.prems"(1) [unfolded read_pending.simps [of pipe_end read_done s]]
  show ?case
  proof (cases "pe_message_queue (ends s pipe_end) \<noteq> []")
    case False
    with eq show ?thesis by (simp add: qc_refl [OF c])
  next
    case True
    show ?thesis
    proof (cases "find_pending_async (pe_read_q (ends s pipe_end)) s")
      case None
      with eq True show ?thesis by (simp add: qc_refl [OF c])
    next
      case (Some async)
      with eq True obtain s1 where s1: "read_step pipe_end async s = Some s1"
        and r: "read_pending pipe_end True s1 = Some (done', s')"
        by (auto split: option.splits)
      show ?thesis
        by (rule qc_trans [OF c qc_read_step [OF s1 c] "1.IH" [OF True Some s1 r c]])
    qed
  qed
qed

lemma qc_write_walk: "queue_closed R \<Longrightarrow> R s (snd (write_walk reader avail q s))"
proof (induction q arbitrary: avail s)
  case Nil
  then show ?case by (simp add: qc_refl)
next
  case (Cons message rest)
  note c = Cons.prems
  have r: "R s (snd (write_walk reader av rest (release_async a s)))" for a av
    by (rule qc_trans [OF c qc_release_async [OF c] Cons.IH [OF c]])
  have w: "R s (snd (write_walk reader av rest (snd (wake_message message s))))" for av
    by (rule qc_trans [OF c qc_wake_message [OF c] Cons.IH [OF c]])
  show ?case
    using r w Cons.IH [OF c, of s]
    by (simp add: Let_def case_prod_beta split: option.splits)
qed

lemma qc_reselect:
  "reselect_read_queue pipe_end s = Some s' \<Longrightarrow> queue_closed R \<Longrightarrow> R s s'"
  "reselect_write_queue pipe_end' t = Some t' \<Longrightarrow> queue_closed R \<Longrightarrow> R t t'"
proof (induction pipe_end s and pipe_end' t arbitrary: s' and t'
        rule: reselect_read_queue_reselect_write_queue.induct)
  case (1 pipe_end s)
  show ?case
  proof -
    note eq0 = "1.prems"(1) and c = "1.prems"(2)
    note eq = eq0 [unfolded reselect_read_queue.simps [of pipe_end s]]
    note t = qc_trans [OF c]
    obtain read_done s1 where
      rp: "read_pending pipe_end False (s\<lparr>ignore_reselect := True\<rparr>) = Some (read_done, s1)"
      using eq by (auto split: option.splits)
    define s2 where "s2 = s1\<lparr>ignore_reselect := False\<rparr>"
    have a: "R s s2"
      unfolding s2_def
      by (rule t [OF t [OF qc_ignore [OF c] qc_read_pending [OF rp c]] qc_ignore [OF c]])
    show ?thesis
    proof (cases "pe_connection (ends s2 pipe_end)")
      case None
      then have "s' = s2" using eq rp by (simp add: Let_def s2_def)
      with a show ?thesis by simp
    next
      case (Some connection)
      show ?thesis
      proof (cases "pe_message_queue (ends s2 pipe_end) = []")
        case True
        then obtain fd where "s' = fd_async_wake_up fd STATUS_SUCCESS s2"
          using eq rp Some by (auto simp: Let_def s2_def split: option.splits)
        then show ?thesis using t [OF a qc_fd_async_wake_up [OF c]] by simp
      next
        case False
        show ?thesis
        proof (cases read_done)
          case True
          then have w: "reselect_write_queue connection s2 = Some s'"
            using eq rp Some False by (simp add: Let_def s2_def)
          have "R s2 s'"
            by (rule "1.IH" [OF rp refl s2_def Some False True w c])
          with a show ?thesis by (rule t)
        next
          case nd: False
          then have "s' = s2" using eq rp Some False by (simp add: Let_def s2_def)
          with a show ?thesis by simp
        qed
      qed
    qed
  qed
next
  case (2 pipe_end s)
  show ?case
  proof -
    note eq0 = "2.prems"(1) and c = "2.prems"(2)
    note eq = eq0 [unfolded reselect_write_queue.simps [of pipe_end s]]
    note t = qc_trans [OF c]
    show ?thesis
    proof (cases "pe_connection (ends s pipe_end)")
      case None
      then show ?thesis using eq by (simp add: qc_refl [OF c])
    next
      case (Some reader)
      obtain kept s1 where ww: "write_walk reader 0 (pe_message_queue (ends s reader))
                  (s\<lparr>ignore_reselect := True\<rparr>) = (kept, s1)"
        by (cases "write_walk reader 0 (pe_message_queue (ends s reader))
                  (s\<lparr>ignore_reselect := True\<rparr>)") auto
      define s2 where "s2 = (upd_end reader (\<lambda>e. e\<lparr>pe_message_queue := kept\<rparr>) s1)
                    \<lparr>ignore_reselect := False\<rparr>"
      have "R (s\<lparr>ignore_reselect := True\<rparr>) s1"
        using qc_write_walk [OF c, of "s\<lparr>ignore_reselect := True\<rparr>" reader 0
                "pe_message_queue (ends s reader)"] ww by simp
      then have "R s s1" by (rule t [OF qc_ignore [OF c]])
      moreover have "length kept \<le> length (pe_message_queue (ends s1 reader))"
        using write_walk_length [of reader 0 "pe_message_queue (ends s reader)"
                "s\<lparr>ignore_reselect := True\<rparr>"]
              ends_write_walk [of reader 0 "pe_message_queue (ends s reader)"
                "s\<lparr>ignore_reselect := True\<rparr>"] ww
        by simp
      ultimately have a: "R s s2"
        unfolding s2_def by (intro t [OF t [OF _ qc_queue [OF c]] qc_ignore [OF c]])
      have r: "reselect_read_queue reader s2 = Some t'"
        using eq Some ww by (simp add: s2_def)
      have "R s2 t'" using "2.IH" [OF Some ww [symmetric] _ c] r by (simp add: s2_def)
      with a show ?thesis by (rule t)
    qed
  qed
qed



subsection \<open>Terminating an async\<close>

text \<open>
  The queue of a pipe end never gets longer by the queue operations.
\<close>

definition shrinks :: "sys \<Rightarrow> sys \<Rightarrow> bool" where
  "shrinks s s' =
     (\<forall>e. length (pe_message_queue (ends s' e)) \<le> length (pe_message_queue (ends s e)))"

lemma ends_log_event: "ends (log_event ev s) = ends s"
  by (simp add: log_event_def)

lemma ends_upd_iosb: "ends (upd_iosb i f s) = ends s"
  by (simp add: upd_iosb_def)

lemma ends_host_ok: "ends (snd (host_ok s)) = ends s"
  by (simp add: host_ok_def split: list.split)

lemma shrinks_closed: "queue_closed shrinks"
  unfolding queue_closed_def shrinks_def
  by (auto simp: upd_end_def ends_log_event ends_upd_iosb ends_host_ok intro: order_trans)

text \<open>
  Modelled from the spec: \<open>async_terminate\<close> completes the async and then, when the async
  was still pending, has its file descriptor reselect the queue the async belongs to
  (\<^verbatim>\<open>async_reselect\<close>; spec 4.4: terminating an async may itself trigger reselect on the
  queue it belongs to).  For the read queue and the write queue of a pipe end the
  reselect is \<open>pipe_end_reselect_async\<close>; on any other queue it does nothing in this
  file.
\<close>

definition async_reselect :: "addr \<Rightarrow> sys \<Rightarrow> sys option" where
  "async_reselect async s =
     (case a_queue (asyncs s ! async) of
        Read_q_of pipe_end \<Rightarrow> pipe_end_reselect_async pipe_end (Read_q_of pipe_end) s
      | Write_q_of pipe_end \<Rightarrow> pipe_end_reselect_async pipe_end (Write_q_of pipe_end) s
      | Other_queue \<Rightarrow> Some s)"

definition async_terminate :: "addr \<Rightarrow> ntstatus \<Rightarrow> sys \<Rightarrow> sys option" where
  "async_terminate async status s =
     (if is_pending s async
      then async_reselect async (async_complete async status s)
      else Some (async_complete async status s))"

text \<open>
  While a reselect is in progress (\<open>ignore_reselect\<close> set) the reselect that
  \<open>async_terminate\<close> causes returns at once, so that \<open>async_terminate\<close> is
  \<open>async_complete\<close>: this is how \<open>wake_message\<close> and the loop of \<open>reselect_read_queue\<close>,
  which run with the flag set, terminate their asyncs.
\<close>

lemma async_terminate_ignored:
  "ignore_reselect s \<Longrightarrow> async_terminate async status s = Some (async_complete async status s)"
  by (simp add: async_terminate_def async_reselect_def pipe_end_reselect_async_def
      async_complete_def log_event_def Let_def split: async_queue_ref.split)

text \<open>
  Modelled from the spec: \<open>async_wake_up\<close> terminates every async of a queue, in queue
  order.
\<close>

fun terminate_all :: "addr list \<Rightarrow> ntstatus \<Rightarrow> sys \<Rightarrow> sys option" where
  "terminate_all [] status s = Some s"
| "terminate_all (async # queue) status s =
     (case async_terminate async status s of
        None \<Rightarrow> None
      | Some s1 \<Rightarrow> terminate_all queue status s1)"

definition async_wake_up :: "addr list option \<Rightarrow> ntstatus \<Rightarrow> sys \<Rightarrow> sys option" where
  "async_wake_up queue status s =
     (case queue of None \<Rightarrow> Some s | Some q \<Rightarrow> terminate_all q status s)"

lemma qc_pipe_end_reselect_async:
  "pipe_end_reselect_async pipe_end queue s = Some s' \<Longrightarrow> queue_closed R \<Longrightarrow> R s s'"
  by (auto simp: pipe_end_reselect_async_def qc_refl qc_reselect split: if_splits)

lemma qc_async_terminate:
  assumes a: "async_terminate async status s = Some s'" and c: "queue_closed R"
  shows "R s s'"
proof -
  have "R (async_complete async status s) s'"
    using a c
    by (auto simp: async_terminate_def async_reselect_def qc_refl
             intro: qc_pipe_end_reselect_async split: if_splits async_queue_ref.splits)
  with qc_async_complete [OF c] show ?thesis by (rule qc_trans [OF c])
qed

lemma qc_terminate_all:
  "terminate_all queue status s = Some s' \<Longrightarrow> queue_closed R \<Longrightarrow> R s s'"
proof (induction queue arbitrary: s)
  case Nil
  then show ?case by (simp add: qc_refl)
next
  case (Cons async queue)
  then obtain s1 where 1: "async_terminate async status s = Some s1"
    and 2: "terminate_all queue status s1 = Some s'"
    by (auto split: option.splits)
  show ?case
    by (rule qc_trans [OF Cons.prems(2) qc_async_terminate [OF 1 Cons.prems(2)]
          Cons.IH [OF 2 Cons.prems(2)]])
qed

lemma qc_async_wake_up:
  "async_wake_up queue status s = Some s' \<Longrightarrow> queue_closed R \<Longrightarrow> R s s'"
  by (auto simp: async_wake_up_def qc_refl intro: qc_terminate_all split: option.splits)

lemma async_terminate_shrinks:
  "async_terminate async status s = Some s' \<Longrightarrow>
   length (pe_message_queue (ends s' e)) \<le> length (pe_message_queue (ends s e))"
  using qc_async_terminate [OF _ shrinks_closed] by (simp add: shrinks_def)


subsection \<open>Disconnecting a pipe end\<close>

text \<open>
  The walk of \<open>pipe_end_disconnect\<close> over the message queue of the end
  (\<^verbatim>\<open>LIST_FOR_EACH_ENTRY_SAFE\<close>), from the message at place \<open>k\<close> of the queue on.
  \<open>free_message\<close> takes the message out of the queue before its async is terminated.
  Terminating the async of a message reselects the write queue of the writer, and that
  reselect can wake or free other messages of the very queue the walk is on, so the walk
  reads the queue again after each step.  The walk comes after the read queue of the end
  has been woken: no read is pending on the end any more, the nested reselect takes no
  message from the front of the queue, and the message that follows the one at hand
  stays at its place unless the nested reselect frees it.  In that last case the loop of
  the C code would go on in a freed message (it has saved the pointer to it), and the
  model stops with \<open>None\<close>; \<open>next_in_place\<close> tells the two cases apart by the status block
  of the message, which no two messages share.
\<close>

definition next_in_place :: "addr \<Rightarrow> nat \<Rightarrow> sys \<Rightarrow> sys \<Rightarrow> bool" where
  "next_in_place pipe_end k s s' =
     (let queue = pe_message_queue (ends s pipe_end);
          queue' = pe_message_queue (ends s' pipe_end)
      in k < length queue \<longrightarrow>
           k < length queue' \<and> msg_iosb (queue' ! k) = msg_iosb (queue ! k))"

function disconnect_messages :: "addr \<Rightarrow> ntstatus \<Rightarrow> nat \<Rightarrow> sys \<Rightarrow> sys option" where
  "disconnect_messages pipe_end status k s =
     (let queue = pe_message_queue (ends s pipe_end) in
      if \<not> k < length queue then Some s
      else
        (let message = queue ! k;
             async = msg_async message;
             freed = (async \<noteq> None \<or> status = STATUS_PIPE_DISCONNECTED);
             s1 = (if freed
                   then upd_end pipe_end
                          (\<lambda>e. e\<lparr>pe_message_queue := take k queue @ drop (Suc k) queue\<rparr>) s
                   else s)
         in case async of
              None \<Rightarrow> disconnect_messages pipe_end status (if freed then k else Suc k) s1
            | Some a \<Rightarrow>
                (case async_terminate a status s1 of
                   None \<Rightarrow> None
                 | Some s2 \<Rightarrow>
                     if next_in_place pipe_end k s1 (release_async a s2)
                     then disconnect_messages pipe_end status k (release_async a s2)
                     else None)))"
  by pat_completeness auto
termination
proof (relation "measure (\<lambda>(pipe_end, status, k, s).
          length (pe_message_queue (ends s pipe_end)) - k)", goal_cases)
  case 1
  show ?case by simp
next
  case (2 pipe_end status k s queue message async freed s1)
  then show ?case by (auto simp: upd_end_def)
next
  case (3 pipe_end status k s queue message async freed s1 a s2)
  have fr: freed using 3(3-7) by auto
  have s1: "s1 = upd_end pipe_end
                   (\<lambda>e. e\<lparr>pe_message_queue := take k queue @ drop (Suc k) queue\<rparr>) s"
    using 3(6) fr by simp
  have "length (pe_message_queue (ends s2 pipe_end)) \<le> length (pe_message_queue (ends s1 pipe_end))"
    using 3(8) by (rule async_terminate_shrinks)
  moreover have "length (pe_message_queue (ends s1 pipe_end)) < length queue"
    using 3(1,2) by (simp add: s1 upd_end_def)
  ultimately show ?case using 3(1,2) by (simp add: ends_release_async)
qed

declare disconnect_messages.simps [simp del]

definition disconnect_server_io :: "addr \<Rightarrow> ntstatus \<Rightarrow> sys \<Rightarrow> sys option" where
  "disconnect_server_io pipe_end status s =
     (let s1 = (case pe_fd (ends s pipe_end) of
                  None \<Rightarrow> s
                | Some fd \<Rightarrow> fd_async_wake_up fd status s)
      in do {
        s2 \<leftarrow> async_wake_up (pe_read_q (ends s1 pipe_end)) status s1;
        s3 \<leftarrow> disconnect_messages pipe_end status 0 s2;
        if status = STATUS_PIPE_DISCONNECTED
        then set_fd_signaled (pe_fd (ends s3 pipe_end)) False s3
        else Some s3
      })"

function pipe_end_disconnect :: "addr \<Rightarrow> ntstatus \<Rightarrow> sys \<Rightarrow> sys option" where
  "pipe_end_disconnect pipe_end status s =
     (let connection = pe_connection (ends s pipe_end);
          s1 = upd_end pipe_end (\<lambda>e. e\<lparr>pe_connection := None\<rparr>) s
      in do {
        s2 \<leftarrow> (if use_server_io (ends s1 pipe_end)
               then disconnect_server_io pipe_end status s1 else Some s1);
        case connection of
          None \<Rightarrow> Some s2
        | Some c \<Rightarrow>
            pipe_end_disconnect c status (upd_end c (\<lambda>e. e\<lparr>pe_connection := None\<rparr>) s2) })"
  by pat_completeness auto
termination
  by (relation "measure (\<lambda>(pipe_end, status, s).
        if pe_connection (ends s pipe_end) = None then 0 else 1)")
     (auto simp: upd_end_def intro: sym)

declare pipe_end_disconnect.simps [simp del]

text \<open>
  The depth of the self-recursion of \<open>pipe_end_disconnect\<close>: the number of nested calls
  it makes on the way, counted along the same run.
\<close>

function disconnect_depth :: "addr \<Rightarrow> ntstatus \<Rightarrow> sys \<Rightarrow> nat" where
  "disconnect_depth pipe_end status s =
     (let connection = pe_connection (ends s pipe_end);
          s1 = upd_end pipe_end (\<lambda>e. e\<lparr>pe_connection := None\<rparr>) s
      in case (if use_server_io (ends s1 pipe_end)
               then disconnect_server_io pipe_end status s1 else Some s1) of
           None \<Rightarrow> 0
         | Some s2 \<Rightarrow>
             (case connection of
                None \<Rightarrow> 0
              | Some c \<Rightarrow>
                  Suc (disconnect_depth c status
                         (upd_end c (\<lambda>e. e\<lparr>pe_connection := None\<rparr>) s2))))"
  by pat_completeness auto
termination
  by (relation "measure (\<lambda>(pipe_end, status, s).
        if pe_connection (ends s pipe_end) = None then 0 else 1)")
     (auto simp: upd_end_def intro: sym)

declare disconnect_depth.simps [simp del]



text \<open>
  \<open>do_disconnect\<close>: the references on file descriptor objects are not counted in the
  model, so \<^verbatim>\<open>release_object\<close> of an fd leaves the memory as it is, and the shutdown of
  the host socket is the host's business.
\<close>

definition do_disconnect :: "addr \<Rightarrow> sys \<Rightarrow> sys option" where
  "do_disconnect server s =
     do {
       s1 \<leftarrow> (case srv_client (servers s server) of
                None \<Rightarrow> Some s
              | Some client \<Rightarrow>
                  do {
                    sa \<leftarrow> c_assert (cl_server (clients s client) = Some server) s;
                    sb \<leftarrow> c_assert (pe_fd (ends sa client) \<noteq> None) sa;
                    Some (if \<not> use_server_io (ends sb server)
                          then upd_end client (\<lambda>e. e\<lparr>pe_fd := None\<rparr>) sb else sb)
                  });
       s2 \<leftarrow> c_assert (pe_fd (ends s1 server) \<noteq> None) s1;
       Some (upd_end server (\<lambda>e. e\<lparr>pe_fd := None\<rparr>) s2)
     }"

text \<open>The loop of \<open>pipe_end_destroy\<close>: every message left must have lost its async.\<close>

fun free_all_messages :: "pipe_message list \<Rightarrow> pipe_message list option" where
  "free_all_messages [] = Some []"
| "free_all_messages (message # rest) =
     (if msg_async message \<noteq> None then None else free_all_messages rest)"

definition pipe_end_destroy :: "addr \<Rightarrow> sys \<Rightarrow> sys option" where
  "pipe_end_destroy pipe_end s =
     (case free_all_messages (pe_message_queue (ends s pipe_end)) of
        None \<Rightarrow> None
      | Some q \<Rightarrow>
          Some (upd_end pipe_end
                  (\<lambda>e. e\<lparr>pe_message_queue := q, pe_read_q := None, pe_write_q := None\<rparr>) s))"

definition named_pipe_destroy :: "addr \<Rightarrow> sys \<Rightarrow> sys option" where
  "named_pipe_destroy pipe s =
     do {
       s1 \<leftarrow> c_assert (np_servers (pipes s pipe) = []) s;
       s2 \<leftarrow> c_assert (np_instances (pipes s1 pipe) = 0) s1;
       Some (upd_pipe pipe (\<lambda>p. p\<lparr>np_waiters := None\<rparr>) s2)
     }"

text \<open>
  Modelled from the spec: \<open>grab_object\<close> and \<open>release_object\<close> on a named pipe.  The
  object manager destroys the pipe when its last reference goes, takes its name out of
  the namespace and frees it.
\<close>

definition grab_pipe :: "addr \<Rightarrow> sys \<Rightarrow> sys" where
  "grab_pipe pipe s = upd_pipe pipe (\<lambda>p. p\<lparr>np_refcount := Suc (np_refcount p)\<rparr>) s"

definition release_pipe :: "addr \<Rightarrow> sys \<Rightarrow> sys option" where
  "release_pipe pipe s =
     do {
       s1 \<leftarrow> c_assert (np_refcount (pipes s pipe) \<noteq> 0) s;
       let s2 = upd_pipe pipe (\<lambda>p. p\<lparr>np_refcount := np_refcount p - 1\<rparr>) s1;
       if np_refcount (pipes s2 pipe) = 0
       then do {
         s3 \<leftarrow> named_pipe_destroy pipe s2;
         Some (s3\<lparr>namespace := (\<lambda>n. if namespace s3 n = Some pipe then None else namespace s3 n),
                  obj_ops := (obj_ops s3)(pipe := no_object)\<rparr>)
       }
       else Some s2
     }"

definition pipe_server_destroy :: "addr \<Rightarrow> sys \<Rightarrow> sys option" where
  "pipe_server_destroy server s =
     do {
       s1 \<leftarrow> pipe_end_disconnect server STATUS_PIPE_BROKEN s;
       s2 \<leftarrow> (if pe_fd (ends s1 server) \<noteq> None
               then do { sa \<leftarrow> notify_empty server s1; do_disconnect server sa }
               else Some s1);
       s3 \<leftarrow> pipe_end_destroy server s2;
       let s4 = (case srv_client (servers s3 server) of
                   None \<Rightarrow> s3
                 | Some client \<Rightarrow>
                     upd_server server (\<lambda>v. v\<lparr>srv_client := None\<rparr>)
                       (upd_client client (\<lambda>c. c\<lparr>cl_server := None\<rparr>) s3));
       let pipe = srv_pipe (servers s4 server);
       s5 \<leftarrow> c_assert (np_instances (pipes s4 pipe) \<noteq> 0) s4;
       let s6 = upd_pipe pipe (\<lambda>p. p\<lparr>np_instances := np_instances p - 1\<rparr>) s5;
       let s7 = upd_pipe pipe (\<lambda>p. p\<lparr>np_servers := remove1 server (np_servers p)\<rparr>) s6;
       s8 \<leftarrow> release_pipe pipe s7;
       Some (s8\<lparr>obj_ops := (obj_ops s8)(server := no_object)\<rparr>)
     }"

definition pipe_client_destroy :: "addr \<Rightarrow> sys \<Rightarrow> sys option" where
  "pipe_client_destroy client s =
     (let server = cl_server (clients s client) in
      do {
        s1 \<leftarrow> pipe_end_disconnect client STATUS_PIPE_BROKEN s;
        s2 \<leftarrow> (case server of
                 None \<Rightarrow> Some s1
               | Some srv \<Rightarrow>
                   do {
                     sa \<leftarrow> notify_empty srv s1;
                     sb \<leftarrow> (case srv_state (servers sa srv) of
                              ps_connected_server \<Rightarrow> set_server_state srv ps_wait_disconnect sa
                            | ps_idle_server \<Rightarrow> None
                            | ps_wait_open \<Rightarrow> None
                            | ps_wait_disconnect \<Rightarrow> None
                            | ps_wait_connect \<Rightarrow> None);
                     sc \<leftarrow> c_assert (srv_client (servers sb srv) \<noteq> None) sb;
                     Some (upd_client client (\<lambda>c. c\<lparr>cl_server := None\<rparr>)
                             (upd_server srv (\<lambda>v. v\<lparr>srv_client := None\<rparr>) sc))
                   });
        s3 \<leftarrow> pipe_end_destroy client s2;
        Some (s3\<lparr>obj_ops := (obj_ops s3)(client := no_object)\<rparr>)
      })"




subsection \<open>The server end: ioctls\<close>

text \<open>
  The body of \<^verbatim>\<open>FSCTL_PIPE_LISTEN\<close> for the states \<open>ps_idle_server\<close> and
  \<open>ps_wait_connect\<close>, which share it in the switch.
\<close>

definition listen_idle :: "addr \<Rightarrow> addr \<Rightarrow> sys \<Rightarrow> (nat \<times> sys) option" where
  "listen_idle server async s =
     (case srv_ioctl_fd (servers s server) of
        None \<Rightarrow> None
      | Some fd \<Rightarrow>
          (case fd_queue_async fd async s of
             (False, s1) \<Rightarrow> Some (0, s1)
           | (True, s1) \<Rightarrow>
               (case (if async_is_blocking async s1 then alloc_handle s1 else (0, s1)) of
                  (wait_handle, s2) \<Rightarrow>
                    do {
                      s3 \<leftarrow> set_server_state server ps_wait_open s2;
                      let waiters = np_waiters (pipes s3 (srv_pipe (servers s3 server)));
                      s4 \<leftarrow> (if waiters \<noteq> None then async_wake_up waiters STATUS_SUCCESS s3
                             else Some s3);
                      Some (wait_handle, set_error STATUS_PENDING s4)
                    })))"

definition pipe_server_ioctl ::
  "addr \<Rightarrow> ioctl_code_t \<Rightarrow> addr \<Rightarrow> nat \<Rightarrow> sys \<Rightarrow> (nat \<times> sys) option" where
  "pipe_server_ioctl server code async reply_size s =
     (case code of
        FSCTL_PIPE_LISTEN \<Rightarrow>
          (case srv_state (servers s server) of
             ps_idle_server \<Rightarrow> listen_idle server async s
           | ps_wait_connect \<Rightarrow> listen_idle server async s
           | ps_connected_server \<Rightarrow> Some (0, set_error STATUS_PIPE_CONNECTED s)
           | ps_wait_disconnect \<Rightarrow> Some (0, set_error STATUS_NO_DATA_DETECTED s)
           | ps_wait_open \<Rightarrow> Some (0, set_error STATUS_INVALID_HANDLE s))
      | FSCTL_PIPE_DISCONNECT \<Rightarrow>
          (case srv_state (servers s server) of
             ps_connected_server \<Rightarrow>
               (case srv_client (servers s server) of
                  None \<Rightarrow> None
                | Some client \<Rightarrow>
                    do {
                      s1 \<leftarrow> c_assert (pe_fd (ends s client) \<noteq> None) s;
                      s2 \<leftarrow> notify_empty server s1;
                      s3 \<leftarrow> pipe_end_disconnect server STATUS_PIPE_DISCONNECTED s2;
                      s4 \<leftarrow> do_disconnect server s3;
                      (case srv_client (servers s4 server) of
                         None \<Rightarrow> None
                       | Some c \<Rightarrow>
                           do {
                             s5 \<leftarrow> set_server_state server ps_wait_connect
                                    (upd_server server (\<lambda>v. v\<lparr>srv_client := None\<rparr>)
                                       (upd_client c (\<lambda>k. k\<lparr>cl_server := None\<rparr>) s4));
                             Some (0, s5)
                           })
                    })
           | ps_wait_disconnect \<Rightarrow>
               do {
                 s1 \<leftarrow> c_assert (srv_client (servers s server) = None) s;
                 s2 \<leftarrow> pipe_end_disconnect server STATUS_PIPE_DISCONNECTED s1;
                 s3 \<leftarrow> do_disconnect server s2;
                 s4 \<leftarrow> set_server_state server ps_wait_connect s3;
                 Some (0, s4)
               }
           | ps_idle_server \<Rightarrow> Some (0, set_error STATUS_PIPE_LISTENING s)
           | ps_wait_open \<Rightarrow> Some (0, set_error STATUS_PIPE_LISTENING s)
           | ps_wait_connect \<Rightarrow> Some (0, set_error STATUS_PIPE_DISCONNECTED s))
      | FSCTL_PIPE_PEEK \<Rightarrow> Some (0, pipe_end_peek server reply_size s)
      | FSCTL_PIPE_WAIT \<Rightarrow> no_fd_op s
      | FSCTL_OTHER n \<Rightarrow> no_fd_op s)"

definition pipe_client_ioctl ::
  "addr \<Rightarrow> ioctl_code_t \<Rightarrow> addr \<Rightarrow> nat \<Rightarrow> sys \<Rightarrow> (nat \<times> sys) option" where
  "pipe_client_ioctl client code async reply_size s =
     (case code of
        FSCTL_PIPE_PEEK \<Rightarrow> Some (0, pipe_end_peek client reply_size s)
      | _ \<Rightarrow> no_fd_op s)"

subsection \<open>Creating servers and clients\<close>

definition init_pipe_end :: "addr \<Rightarrow> uint \<Rightarrow> data_size_t \<Rightarrow> sys \<Rightarrow> sys" where
  "init_pipe_end pipe_end pipe_flags buffer_size s =
     s\<lparr>ends := (ends s)(pipe_end :=
          \<lparr>pe_fd = None, pe_flags = pipe_flags, pe_connection = None,
           pe_buffer_size = buffer_size, pe_message_queue = [],
           pe_read_q = None, pe_write_q = None\<rparr>)\<rparr>"

text \<open>
  \<open>create_pipe_server\<close>.  When the pseudo-fd cannot be allocated the new server holds the
  only reference to itself, so \<^verbatim>\<open>release_object\<close> destroys it.
\<close>

definition create_pipe_server :: "addr \<Rightarrow> uint \<Rightarrow> uint \<Rightarrow> sys \<Rightarrow> (addr option \<times> sys) option" where
  "create_pipe_server pipe options pipe_flags s =
     (case alloc_object pipe_server_ops s of
        (None, s1) \<Rightarrow> Some (None, s1)
      | (Some server, s1) \<Rightarrow>
          (let s2 = upd_server server
                      (\<lambda>v. v\<lparr>srv_pipe := pipe, srv_client := None,
                              srv_flush_poll := False, srv_options := options\<rparr>) s1;
               s3 = init_pipe_end server pipe_flags (np_insize (pipes s2 pipe)) s2;
               s4 = upd_pipe pipe (\<lambda>p. p\<lparr>np_servers := server # np_servers p\<rparr>) s3;
               s5 = grab_pipe pipe s4
           in case alloc_fd False s5 of
                (None, s6) \<Rightarrow>
                  do {
                    s7 \<leftarrow> pipe_server_destroy server
                            (upd_server server (\<lambda>v. v\<lparr>srv_ioctl_fd := None\<rparr>) s6);
                    Some (None, s7)
                  }
              | (Some fd, s6) \<Rightarrow>
                  do {
                    s7 \<leftarrow> set_fd_signaled (Some fd) True
                            (upd_server server (\<lambda>v. v\<lparr>srv_ioctl_fd := Some fd\<rparr>) s6);
                    s8 \<leftarrow> set_server_state server ps_idle_server s7;
                    Some (Some server, s8)
                  }))"

definition create_pipe_client :: "uint \<Rightarrow> uint \<Rightarrow> data_size_t \<Rightarrow> sys \<Rightarrow> addr option \<times> sys" where
  "create_pipe_client flags pipe_flags buffer_size s =
     (case alloc_object pipe_client_ops s of
        (None, s1) \<Rightarrow> (None, s1)
      | (Some client, s1) \<Rightarrow>
          (Some client,
           init_pipe_end client pipe_flags buffer_size
             (upd_client client (\<lambda>c. c\<lparr>cl_server := None, cl_flags := flags\<rparr>) s1)))"

definition find_available_server :: "addr \<Rightarrow> sys \<Rightarrow> addr option" where
  "find_available_server pipe s =
     (case find (\<lambda>server. srv_state (servers s server) = ps_wait_open) (np_servers (pipes s pipe)) of
        Some server \<Rightarrow> Some server
      | None \<Rightarrow>
          find (\<lambda>server. srv_state (servers s server) = ps_idle_server) (np_servers (pipes s pipe)))"

definition is_overlapped :: "uint \<Rightarrow> bool" where
  "is_overlapped options =
     (options AND (FILE_SYNCHRONOUS_IO_ALERT OR FILE_SYNCHRONOUS_IO_NONALERT) = 0)"

subsection \<open>Opening the client end\<close>

text \<open>
  The part of \<open>named_pipe_open_file\<close> that gives the two ends their file descriptors.
  It returns the client, or \<open>None\<close> after releasing (and so destroying) it.  The calls on
  the host sockets (\<^verbatim>\<open>fcntl\<close>, \<^verbatim>\<open>setsockopt\<close>, \<^verbatim>\<open>fd_copy_completion\<close>) leave the server's
  memory as it is.
\<close>

definition open_file_fds :: "addr \<Rightarrow> addr \<Rightarrow> sys \<Rightarrow> (addr option \<times> sys) option" where
  "open_file_fds server client s =
     (if use_server_io (ends s server)
      then
        (case alloc_fd False s of
           (Some fd, s1) \<Rightarrow>
             do {
               s2 \<leftarrow> set_fd_signaled (Some fd) True
                       (upd_end client (\<lambda>e. e\<lparr>pe_fd := Some fd\<rparr>) s1);
               s3 \<leftarrow> c_assert (srv_ioctl_fd (servers s2 server) \<noteq> None) s2;
               s4 \<leftarrow> set_no_fd_status (srv_ioctl_fd (servers s3 server)) STATUS_BAD_DEVICE_TYPE
                       (upd_end server (\<lambda>e. e\<lparr>pe_fd := srv_ioctl_fd (servers s3 server)\<rparr>) s3);
               Some (Some client, s4)
             }
         | (None, s1) \<Rightarrow>
             do {
               s2 \<leftarrow> pipe_client_destroy client (upd_end client (\<lambda>e. e\<lparr>pe_fd := None\<rparr>) s1);
               Some (None, s2)
             })
      else
        (case host_ok s of
           (True, s1) \<Rightarrow>
             do {
               s2 \<leftarrow> c_assert (pe_fd (ends s1 server) = None) s1;
               (case alloc_fd True s2 of
                  (cfd, s3) \<Rightarrow>
                    (case alloc_fd True (upd_end client (\<lambda>e. e\<lparr>pe_fd := cfd\<rparr>) s3) of
                       (sfd, s4) \<Rightarrow>
                         (let s5 = upd_end server (\<lambda>e. e\<lparr>pe_fd := sfd\<rparr>) s4 in
                          if cfd \<noteq> None \<and> sfd \<noteq> None then Some (Some client, s5)
                          else do { s6 \<leftarrow> pipe_client_destroy client s5; Some (None, s6) })))
             }
         | (False, s1) \<Rightarrow>
             do {
               s2 \<leftarrow> pipe_client_destroy client (set_error (STATUS_OTHER 0) s1);
               Some (None, s2)
             }))"

definition named_pipe_open_file ::
  "addr \<Rightarrow> uint \<Rightarrow> uint \<Rightarrow> uint \<Rightarrow> sys \<Rightarrow> (addr option \<times> sys) option" where
  "named_pipe_open_file pipe access sharing options s =
     (case find_available_server pipe s of
        None \<Rightarrow> Some (None, set_error STATUS_PIPE_NOT_AVAILABLE s)
      | Some server \<Rightarrow>
          (let pipe_sharing = np_sharing (pipes s (srv_pipe (servers s server))) in
           if (access AND GENERIC_READ \<noteq> 0 \<and> pipe_sharing AND FILE_SHARE_READ = 0) \<or>
              (access AND GENERIC_WRITE \<noteq> 0 \<and> pipe_sharing AND FILE_SHARE_WRITE = 0)
           then Some (None, set_error STATUS_ACCESS_DENIED s)
           else
             (case create_pipe_client options (np_flags (pipes s pipe)) (np_outsize (pipes s pipe)) s of
                (None, s1) \<Rightarrow> Some (None, s1)
              | (Some new_client, s1) \<Rightarrow>
                  do {
                    (client, s2) \<leftarrow> open_file_fds server new_client s1;
                    (case client of
                       None \<Rightarrow> Some (None, s2)
                     | Some c \<Rightarrow>
                         do {
                           s3 \<leftarrow> c_assert (pe_fd (ends s2 c) \<noteq> None \<and> pe_fd (ends s2 server) \<noteq> None) s2;
                           s4 \<leftarrow> (if srv_state (servers s3 server) = ps_wait_open
                                   then (case srv_ioctl_fd (servers s3 server) of
                                           None \<Rightarrow> None
                                         | Some fd \<Rightarrow> Some (fd_async_wake_up fd STATUS_SUCCESS s3))
                                   else Some s3);
                           s5 \<leftarrow> set_server_state server ps_connected_server s4;
                           let s6 = upd_server server (\<lambda>v. v\<lparr>srv_client := Some c\<rparr>) s5;
                           let s7 = upd_client c (\<lambda>k. k\<lparr>cl_server := Some server\<rparr>) s6;
                           let s8 = upd_end server (\<lambda>e. e\<lparr>pe_connection := Some c\<rparr>) s7;
                           let s9 = upd_end c (\<lambda>e. e\<lparr>pe_connection := Some server\<rparr>) s8;
                           Some (Some c, s9)
                         })
                  })))"


subsection \<open>The device and the request handlers\<close>

text \<open>
  Modelled from the spec: the object manager looks a named pipe up by its name.  The
  namespace of the pipe device is the map \<open>namespace\<close>; \<open>create_named_object\<close> with
  open-if semantics returns the pipe of that name with one more reference and reports the
  name collision, or makes a new pipe object, whose fields the caller fills in.
\<close>

definition create_named_object :: "string \<Rightarrow> sys \<Rightarrow> addr option \<times> sys" where
  "create_named_object name s =
     (let s0 = clear_error s in
      case (if name = [] then None else namespace s0 name) of
        Some pipe \<Rightarrow> (Some pipe, set_error STATUS_OBJECT_NAME_EXISTS (grab_pipe pipe s0))
      | None \<Rightarrow>
          (case alloc_object named_pipe_ops s0 of
             (None, s1) \<Rightarrow> (None, s1)
           | (Some pipe, s1) \<Rightarrow>
               (Some pipe,
                (upd_pipe pipe (\<lambda>p. p\<lparr>np_refcount := 1\<rparr>) s1)
                  \<lparr>namespace := (if name = [] then namespace s1
                                  else (namespace s1)(name := Some pipe))\<rparr>)))"

text \<open>The request of \<^verbatim>\<open>FSCTL_PIPE_WAIT\<close>, as far as this file reads it.\<close>

record pipe_wait_request =
  wait_size_ok :: bool
  wait_name :: string

definition named_pipe_device_ioctl ::
  "ioctl_code_t \<Rightarrow> pipe_wait_request \<Rightarrow> addr \<Rightarrow> sys \<Rightarrow> (nat \<times> sys) option" where
  "named_pipe_device_ioctl code buffer async s =
     (case code of
        FSCTL_PIPE_WAIT \<Rightarrow>
          if \<not> wait_size_ok buffer then Some (0, set_error STATUS_INVALID_PARAMETER s)
          else
            (case namespace s (wait_name buffer) of
               None \<Rightarrow> Some (0, set_error (STATUS_OTHER 1) s)
             | Some pipe \<Rightarrow>
                 (let s1 = grab_pipe pipe s in
                  case find_available_server pipe s1 of
                    Some server \<Rightarrow> do { s2 \<leftarrow> release_pipe pipe s1; Some (0, s2) }
                  | None \<Rightarrow>
                      (case (if np_waiters (pipes s1 pipe) = None then create_async_queue s1
                             else (np_waiters (pipes s1 pipe), s1)) of
                         (None, s2) \<Rightarrow>
                           do {
                             s3 \<leftarrow> release_pipe pipe (upd_pipe pipe (\<lambda>p. p\<lparr>np_waiters := None\<rparr>) s2);
                             Some (0, s3)
                           }
                       | (Some q, s2) \<Rightarrow>
                           (let s3 = set_async_queue async Other_queue
                                       (upd_pipe pipe (\<lambda>p. p\<lparr>np_waiters := Some (q @ [async])\<rparr>) s2)
                            in case (if async_is_blocking async s3 then alloc_handle s3 else (0, s3)) of
                                 (wait_handle, s4) \<Rightarrow>
                                   do {
                                     s5 \<leftarrow> release_pipe pipe (set_error STATUS_PENDING s4);
                                     Some (wait_handle, s5)
                                   }))))
      | _ \<Rightarrow> no_fd_op s)"

text \<open>The fields of the \<^verbatim>\<open>create_named_pipe\<close> request and of its object attributes.\<close>

record create_named_pipe_request =
  req_access :: uint
  req_options :: uint
  req_sharing :: uint
  req_maxinstances :: uint
  req_outsize :: uint
  req_insize :: uint
  req_timeout :: int
  req_flags :: uint

record object_attributes =
  oa_rootdir :: nat
  oa_attributes :: uint
  oa_name :: string

text \<open>
  The end of the handler, once the pipe is there: the new server, its handle, and the
  release of the handler's references.  When no handle can be allocated the handler holds
  the only reference to the server, and releasing it destroys the server.
\<close>

definition add_pipe_server :: "create_named_pipe_request \<Rightarrow> addr \<Rightarrow> sys \<Rightarrow> (nat \<times> sys) option" where
  "add_pipe_server req pipe s =
     do {
       (server, s1) \<leftarrow> create_pipe_server pipe (req_options req) (req_flags req) s;
       (handle, s2) \<leftarrow>
         (case server of
            None \<Rightarrow> Some (0, s1)
          | Some srv \<Rightarrow>
              (case alloc_handle s1 of
                 (handle, sa) \<Rightarrow>
                   (let sb = upd_pipe (srv_pipe (servers sa srv))
                               (\<lambda>p. p\<lparr>np_instances := np_instances p + 1\<rparr>) sa
                    in if handle = 0
                       then do { sc \<leftarrow> pipe_server_destroy srv sb; Some (handle, sc) }
                       else Some (handle, sb))));
       s3 \<leftarrow> release_pipe pipe s2;
       Some (handle, s3)
     }"

definition create_named_pipe ::
  "create_named_pipe_request \<Rightarrow> object_attributes option \<Rightarrow> sys \<Rightarrow> (nat \<times> sys) option" where
  "create_named_pipe req objattr s =
     (case objattr of
        None \<Rightarrow> Some (0, s)
      | Some oa \<Rightarrow>
          if req_sharing req = 0 \<or>
             req_sharing req AND NOT (FILE_SHARE_READ OR FILE_SHARE_WRITE) \<noteq> 0 \<or>
             (req_flags req AND NAMED_PIPE_MESSAGE_STREAM_WRITE = 0 \<and>
              req_flags req AND NAMED_PIPE_MESSAGE_STREAM_READ \<noteq> 0)
          then Some (0, set_error STATUS_INVALID_PARAMETER s)
          else if oa_name oa = [] \<and> oa_rootdir oa = 0
          then Some (0, set_error STATUS_OBJECT_PATH_SYNTAX_BAD s)
          else
            (case (if oa_name oa = [] then host_ok s else (True, s)) of
               (False, s1) \<Rightarrow> Some (0, set_error STATUS_INVALID_HANDLE s1)
             | (True, s1) \<Rightarrow>
                 (case create_named_object (oa_name oa) s1 of
                    (None, s2) \<Rightarrow> Some (0, s2)
                  | (Some pipe, s2) \<Rightarrow>
                      if cur_error s2 \<noteq> STATUS_OBJECT_NAME_EXISTS
                      then
                        add_pipe_server req pipe
                          (upd_pipe pipe
                             (\<lambda>p. p\<lparr>np_instances := 0, np_waiters := None, np_servers := [],
                                     np_insize := req_insize req, np_outsize := req_outsize req,
                                     np_maxinstances := req_maxinstances req,
                                     np_timeout := req_timeout req,
                                     np_flags := req_flags req AND NAMED_PIPE_MESSAGE_STREAM_WRITE,
                                     np_sharing := req_sharing req\<rparr>) s2)
                      else if np_maxinstances (pipes s2 pipe) \<le> np_instances (pipes s2 pipe)
                      then do {
                        s3 \<leftarrow> release_pipe pipe (set_error STATUS_INSTANCE_NOT_AVAILABLE s2);
                        Some (0, s3)
                      }
                      else if np_sharing (pipes s2 pipe) \<noteq> req_sharing req
                      then do {
                        s3 \<leftarrow> release_pipe pipe (set_error STATUS_ACCESS_DENIED s2);
                        Some (0, s3)
                      }
                      else add_pipe_server req pipe (clear_error s2))))"

text \<open>
  \<open>set_named_pipe_info\<close> on the object a handle names; the handle table and its access
  checks are the host's, which reports an object that is neither a server nor a client.
\<close>

definition set_pipe_flags :: "addr \<Rightarrow> addr \<Rightarrow> uint \<Rightarrow> sys \<Rightarrow> sys" where
  "set_pipe_flags obj server flags s =
     (let pipe_flags = np_flags (pipes s (srv_pipe (servers s server))) in
      if flags AND NOT (NAMED_PIPE_MESSAGE_STREAM_READ OR NAMED_PIPE_NONBLOCKING_MODE) \<noteq> 0 \<or>
         (flags AND NAMED_PIPE_MESSAGE_STREAM_READ \<noteq> 0 \<and>
          pipe_flags AND NAMED_PIPE_MESSAGE_STREAM_WRITE = 0)
      then set_error STATUS_INVALID_PARAMETER s
      else upd_end obj (\<lambda>e. e\<lparr>pe_flags := pipe_flags OR flags\<rparr>) s)"

definition set_named_pipe_info :: "addr \<Rightarrow> uint \<Rightarrow> sys \<Rightarrow> sys" where
  "set_named_pipe_info obj flags s =
     (case obj_ops s obj of
        pipe_server_ops \<Rightarrow> set_pipe_flags obj obj flags s
      | pipe_client_ops \<Rightarrow>
          (case cl_server (clients s obj) of
             None \<Rightarrow> clear_error s
           | Some server \<Rightarrow> set_pipe_flags obj server flags (clear_error s))
      | _ \<Rightarrow> set_error STATUS_OBJECT_TYPE_MISMATCH s)"

subsection \<open>The server as a transition system\<close>

text \<open>
  The memory of a server that has just started: no object, no async, no error.
\<close>

definition init_sys :: sys where
  "init_sys =
     \<lparr>ends = (\<lambda>_. \<lparr>pe_fd = None, pe_flags = 0, pe_connection = None, pe_buffer_size = 0,
                     pe_message_queue = [], pe_read_q = None, pe_write_q = None\<rparr>),
      servers = (\<lambda>_. \<lparr>srv_ioctl_fd = None, srv_state = ps_idle_server, srv_client = None,
                        srv_pipe = 0, srv_flush_poll = False, srv_options = 0\<rparr>),
      clients = (\<lambda>_. \<lparr>cl_server = None, cl_flags = 0\<rparr>),
      obj_ops = (\<lambda>_. no_object),
      pipes = (\<lambda>_. \<lparr>np_refcount = 0, np_flags = 0, np_sharing = 0, np_maxinstances = 0,
                      np_outsize = 0, np_insize = 0, np_instances = 0, np_timeout = 0,
                      np_servers = [], np_waiters = None\<rparr>),
      namespace = (\<lambda>_. None),
      fds = (\<lambda>_. \<lparr>fd_signaled = False, fd_no_fd_status = STATUS_BAD_DEVICE_TYPE,
                    fd_wait_q = [], fd_unix = False, fd_pollin = False\<rparr>),
      asyncs = [],
      iosbs = (\<lambda>_. \<lparr>iosb_status = STATUS_SUCCESS, iosb_result = 0, in_size = 0,
                      in_data = None, out_size = 0, out_data = None\<rparr>),
      cur_error = STATUS_SUCCESS,
      ignore_reselect = False,
      next_addr = 1,
      next_handle = 0,
      host = [],
      trace = []\<rparr>"

text \<open>
  Modelled from the spec: for a request that carries an async the host makes a new
  pending async with its own status block, holding the data the caller sent and the
  size of the caller's buffer, before it calls into this file.
\<close>

definition create_request_async :: "byte list \<Rightarrow> data_size_t \<Rightarrow> bool \<Rightarrow> sys \<Rightarrow> addr \<times> sys" where
  "create_request_async data n blocking s =
     (case alloc_addr s of
        (io, s1) \<Rightarrow>
          (length (asyncs s1),
           s1\<lparr>asyncs := asyncs s1 @ [\<lparr>a_status = STATUS_PENDING, a_iosb = io, a_blocking = blocking,
                                   a_queue = Other_queue\<rparr>],
              iosbs := (iosbs s1)(io :=
                \<lparr>iosb_status = STATUS_PENDING, iosb_result = 0,
                 in_size = word_of_nat (length data), in_data = Some data,
                 out_size = n, out_data = None\<rparr>)\<rparr>))"

definition is_pipe_end :: "sys \<Rightarrow> addr \<Rightarrow> bool" where
  "is_pipe_end s a = (obj_ops s a = pipe_server_ops \<or> obj_ops s a = pipe_client_ops)"

text \<open>
  One event of the server: a request or an fd operation of this file on a live object
  (every request starts with a clear error), a timer, the destruction of a server or a
  client whose last reference went, or an act of the host (new answers to come, the
  cancellation or timeout of an async, a change of what \<^verbatim>\<open>poll\<close> reports).
\<close>

inductive step :: "sys \<Rightarrow> sys \<Rightarrow> bool" where
  step_create_named_pipe:
    "create_named_pipe req objattr (clear_error s) = Some (handle, s') \<Longrightarrow> step s s'"
| step_open_file:
    "obj_ops s pipe = named_pipe_ops \<Longrightarrow>
     named_pipe_open_file pipe access sharing options (clear_error s) = Some (client, s') \<Longrightarrow>
     step s s'"
| step_server_ioctl:
    "obj_ops s server = pipe_server_ops \<Longrightarrow>
     create_request_async data n blocking (clear_error s) = (async, s1) \<Longrightarrow>
     pipe_server_ioctl server code async reply_size s1 = Some (handle, s') \<Longrightarrow> step s s'"
| step_client_ioctl:
    "obj_ops s client = pipe_client_ops \<Longrightarrow>
     create_request_async data n blocking (clear_error s) = (async, s1) \<Longrightarrow>
     pipe_client_ioctl client code async reply_size s1 = Some (handle, s') \<Longrightarrow> step s s'"
| step_device_ioctl:
    "create_request_async data n blocking (clear_error s) = (async, s1) \<Longrightarrow>
     named_pipe_device_ioctl code buffer async s1 = Some (handle, s') \<Longrightarrow> step s s'"
| step_read:
    "is_pipe_end s pipe_end \<Longrightarrow>
     create_request_async [] n blocking (clear_error s) = (async, s1) \<Longrightarrow>
     pipe_end_read pipe_end async s1 = Some (handle, s') \<Longrightarrow> step s s'"
| step_write:
    "is_pipe_end s pipe_end \<Longrightarrow>
     create_request_async data 0 blocking (clear_error s) = (async, s1) \<Longrightarrow>
     pipe_end_write pipe_end async s1 = Some (handle, s') \<Longrightarrow> step s s'"
| step_server_flush:
    "obj_ops s server = pipe_server_ops \<Longrightarrow>
     create_request_async [] 0 blocking (clear_error s) = (async, s1) \<Longrightarrow>
     pipe_server_flush (Some server) async s1 = Some (handle, s') \<Longrightarrow> step s s'"
| step_client_flush:
    "obj_ops s client = pipe_client_ops \<Longrightarrow>
     create_request_async [] 0 blocking (clear_error s) = (async, s1) \<Longrightarrow>
     pipe_client_flush client async s1 = Some (handle, s') \<Longrightarrow> step s s'"
| step_reselect:
    "is_pipe_end s pipe_end \<Longrightarrow>
     pipe_end_reselect_async pipe_end queue s = Some s' \<Longrightarrow> step s s'"
| step_check_flushed:
    "obj_ops s server = pipe_server_ops \<Longrightarrow> srv_flush_poll (servers s server) \<Longrightarrow>
     check_flushed server s = Some s' \<Longrightarrow> step s s'"
| step_set_info:
    "step s (set_named_pipe_info obj flags (clear_error s))"
| step_server_destroy:
    "obj_ops s server = pipe_server_ops \<Longrightarrow>
     pipe_server_destroy server s = Some s' \<Longrightarrow> step s s'"
| step_client_destroy:
    "obj_ops s client = pipe_client_ops \<Longrightarrow>
     pipe_client_destroy client s = Some s' \<Longrightarrow> step s s'"
| step_host_answers:
    "step s (s\<lparr>host := answers\<rparr>)"
| step_host_terminate:
    "status \<noteq> STATUS_PENDING \<Longrightarrow> async_terminate async status s = Some s' \<Longrightarrow> step s s'"
| step_host_poll:
    "step s (upd_fd fd (\<lambda>d. d\<lparr>fd_pollin := b\<rparr>) s)"

inductive reachable :: "sys \<Rightarrow> bool" where
  reachable_init: "reachable init_sys"
| reachable_step: "reachable s \<Longrightarrow> step s s' \<Longrightarrow> reachable s'"


subsection \<open>The content of a message queue\<close>

text \<open>
  The bytes of a message that no read has taken yet, the bytes of a whole queue in
  queue order, and the well-formedness of a queued message: its read position is within
  its size and its data is there, as long as its size.
\<close>

definition unread_bytes :: "sys \<Rightarrow> pipe_message \<Rightarrow> byte list" where
  "unread_bytes s m =
     drop (unat (read_pos m)) (case in_data (iosbs s (msg_iosb m)) of None \<Rightarrow> [] | Some d \<Rightarrow> d)"

definition queue_bytes :: "sys \<Rightarrow> pipe_message list \<Rightarrow> byte list" where
  "queue_bytes s q = concat (map (unread_bytes s) q)"

definition message_ok :: "sys \<Rightarrow> pipe_message \<Rightarrow> bool" where
  "message_ok s m =
     (read_pos m \<le> in_size (iosbs s (msg_iosb m)) \<and>
      (case in_data (iosbs s (msg_iosb m)) of
         None \<Rightarrow> False
       | Some d \<Rightarrow> length d = unat (in_size (iosbs s (msg_iosb m)))))"

text \<open>
  The queue \<open>q\<close> after its first \<open>k\<close> bytes are taken: the messages read to their end
  are gone, the message the read stops in has its read position moved.
\<close>

fun queue_after :: "nat \<Rightarrow> sys \<Rightarrow> pipe_message list \<Rightarrow> pipe_message list" where
  "queue_after k s [] = []"
| "queue_after k s (m # ms) =
     (if length (unread_bytes s m) \<le> k
      then (if length (unread_bytes s m) < k then queue_after (k - length (unread_bytes s m)) s ms else ms)
      else m\<lparr>read_pos := read_pos m + word_of_nat k\<rparr> # ms)"

text \<open>
  \<open>keeps io s s'\<close>: from \<open>s\<close> to \<open>s'\<close> no status block has lost or changed its data or
  sizes, and the block \<open>io\<close>, when it is complete, has not changed at all.
\<close>

definition keeps :: "addr \<Rightarrow> sys \<Rightarrow> sys \<Rightarrow> bool" where
  "keeps io s s' =
     ((\<forall>i. in_size (iosbs s' i) = in_size (iosbs s i) \<and> in_data (iosbs s' i) = in_data (iosbs s i) \<and>
           out_size (iosbs s' i) = out_size (iosbs s i) \<and> out_data (iosbs s' i) = out_data (iosbs s i)) \<and>
      (iosb_status (iosbs s io) \<noteq> STATUS_PENDING \<longrightarrow> iosbs s' io = iosbs s io))"

text \<open>
  The number of bytes a read on the end \<open>e\<close> with the status block \<open>io\<close> is to deliver:
  no more than asked for, from the head message only for a message-stream read, from
  the whole queue otherwise.
\<close>

definition delivered :: "addr \<Rightarrow> addr \<Rightarrow> sys \<Rightarrow> nat" where
  "delivered e io s =
     (case pe_message_queue (ends s e) of
        [] \<Rightarrow> 0
      | m # ms \<Rightarrow>
          min (unat (out_size (iosbs s io)))
              (if pe_flags (ends s e) AND NAMED_PIPE_MESSAGE_STREAM_READ \<noteq> 0
               then length (unread_bytes s m) else length (queue_bytes s (m # ms))))"

text \<open>
  What \<open>message_queue_read\<close> leaves: the result and the status in the status block of
  the read, the data delivered, and the queue of the end.
\<close>

definition read_outcome ::
  "addr \<Rightarrow> addr \<Rightarrow> sys \<Rightarrow> (data_size_t \<times> ntstatus \<times> byte list option \<times> pipe_message list) option" where
  "read_outcome pipe_end iosb s =
     map_option
       (\<lambda>s'. (iosb_result (iosbs s' iosb), iosb_status (iosbs s' iosb),
              out_data (iosbs s' iosb), pe_message_queue (ends s' pipe_end)))
       (message_queue_read pipe_end iosb s)"

text \<open>
  What \<open>pipe_end_read\<close> leaves: the error of the request, the status and the result in
  the status block of the read, and the queue of the end.
\<close>

definition read_answer ::
  "addr \<Rightarrow> addr \<Rightarrow> sys \<Rightarrow> (ntstatus \<times> ntstatus \<times> data_size_t \<times> pipe_message list) option" where
  "read_answer pipe_end async s =
     map_option
       (\<lambda>(handle, s'). (cur_error s', iosb_status (iosbs s' (async_get_iosb async s)),
                        iosb_result (iosbs s' (async_get_iosb async s)),
                        pe_message_queue (ends s' pipe_end)))
       (pipe_end_read pipe_end async s)"

text \<open>
  The memory in which \<open>pipe_end_read\<close> runs the reselect, when the host has given the read
  queue and the wait handle and is left with the answers \<open>h\<close>: the async is at the end of
  the read queue of the end.
\<close>

definition read_queued :: "addr \<Rightarrow> addr \<Rightarrow> bool list \<Rightarrow> sys \<Rightarrow> sys" where
  "read_queued e async h s =
     set_async_queue async (Read_q_of e)
       (upd_end e (\<lambda>x. x\<lparr>pe_read_q :=
            Some ((case pe_read_q (ends s e) of None \<Rightarrow> [] | Some x \<Rightarrow> x) @ [async])\<rparr>)
          (s\<lparr>host := h, next_handle := Suc (next_handle s)\<rparr>))"

text \<open>
  \<open>readers_wait s e\<close>: a read is pending on the end \<open>e\<close> only while the queue of \<open>e\<close> is
  empty, and its async belongs to the read queue of \<open>e\<close>.  \<open>pipe_end_read\<close> puts the async
  of a read on the read queue of its end, and \<open>reselect_read_queue\<close> serves the pending
  reads as long as there are messages.
\<close>

definition readers_wait :: "sys \<Rightarrow> addr \<Rightarrow> bool" where
  "readers_wait s e =
     (\<forall>a \<in> set (case pe_read_q (ends s e) of None \<Rightarrow> [] | Some q \<Rightarrow> q).
        is_pending s a \<longrightarrow>
          pe_message_queue (ends s e) = [] \<and> a_queue (asyncs s ! a) = Read_q_of e)"

text \<open>
  \<open>writers_gone s e\<close>: the pending writes of the messages queued on the end \<open>e\<close> belong to
  the write queue of an end that has no connection any more.  \<open>pipe_end_write\<close> puts the
  async of a message on the write queue of the writer, and \<open>pipe_end_disconnect\<close> clears the
  connection of the writer before it tears down the end of the reader.
\<close>

definition writers_gone :: "sys \<Rightarrow> addr \<Rightarrow> bool" where
  "writers_gone s e =
     (\<forall>m \<in> set (pe_message_queue (ends s e)).
        \<forall>a. msg_async m = Some a \<longrightarrow> is_pending s a \<longrightarrow>
          (\<exists>w. a_queue (asyncs s ! a) = Write_q_of w \<and> pe_connection (ends s w) = None))"

text \<open>\<open>same_data s s'\<close>: every status block holds in \<open>s'\<close> the data it holds in \<open>s\<close>.\<close>

definition same_data :: "sys \<Rightarrow> sys \<Rightarrow> bool" where
  "same_data s s' =
     (\<forall>i. in_data (iosbs s' i) = in_data (iosbs s i) \<and>
          in_size (iosbs s' i) = in_size (iosbs s i))"

text \<open>
  \<open>only_queues s s'\<close>: from \<open>s\<close> to \<open>s'\<close> nothing has changed but message queues, asyncs,
  status blocks, the answers of the host, the \<open>ignore_reselect\<close> flag and the trace.
\<close>

definition only_queues :: "sys \<Rightarrow> sys \<Rightarrow> bool" where
  "only_queues s s' =
     ((\<forall>x. (ends s' x)\<lparr>pe_message_queue := []\<rparr> = (ends s x)\<lparr>pe_message_queue := []\<rparr>) \<and>
      servers s' = servers s \<and> clients s' = clients s \<and> obj_ops s' = obj_ops s \<and>
      pipes s' = pipes s \<and> namespace s' = namespace s \<and> fds s' = fds s \<and>
      cur_error s' = cur_error s \<and> next_addr s' = next_addr s \<and>
      next_handle s' = next_handle s \<and> length (asyncs s') = length (asyncs s) \<and>
      (\<forall>a. a_iosb (asyncs s' ! a) = a_iosb (asyncs s ! a)))"


subsection \<open>The walk of reselect\_write\_queue, message by message\<close>

text \<open>
  What the walk of \<open>reselect_write_queue\<close> does with a message of the reader's queue, told
  from the memory before the walk: the message is freed when it holds a writer async and
  its status block is not pending; otherwise its unread bytes are added to the running
  sum \<open>avail\<close>, and it is woken when its status block is pending and the sum is within the
  budget or the message is empty, and kept as it is when not.
\<close>

datatype fate = Freed | Woken | Kept

fun fates :: "data_size_t \<Rightarrow> data_size_t \<Rightarrow> sys \<Rightarrow> pipe_message list \<Rightarrow> fate list" where
  "fates budget avail s [] = []"
| "fates budget avail s (m # ms) =
     (if msg_async m \<noteq> None \<and> iosb_status (iosbs s (msg_iosb m)) \<noteq> STATUS_PENDING
      then Freed # fates budget avail s ms
      else
        (if iosb_status (iosbs s (msg_iosb m)) = STATUS_PENDING \<and>
            (avail + (in_size (iosbs s (msg_iosb m)) - read_pos m) \<le> budget \<or>
             in_size (iosbs s (msg_iosb m)) = 0)
         then Woken else Kept)
        # fates budget (avail + (in_size (iosbs s (msg_iosb m)) - read_pos m)) s ms)"

text \<open>The queue after the walk: the messages not freed, the woken ones without their async.\<close>

fun kept_messages :: "pipe_message list \<Rightarrow> fate list \<Rightarrow> pipe_message list" where
  "kept_messages (m # ms) (Freed # fs) = kept_messages ms fs"
| "kept_messages (m # ms) (Woken # fs) = m\<lparr>msg_async := None\<rparr> # kept_messages ms fs"
| "kept_messages (m # ms) (Kept # fs) = m # kept_messages ms fs"
| "kept_messages ms fs = []"

text \<open>
  The status blocks of the queued messages are distinct, and the writer async of a
  message has the status block of the message: \<open>pipe_end_write\<close> makes every message so.
\<close>

definition writer_iosbs :: "sys \<Rightarrow> pipe_message list \<Rightarrow> bool" where
  "writer_iosbs s q =
     (distinct (map msg_iosb q) \<and>
      (\<forall>m \<in> set q. \<forall>a. msg_async m = Some a \<longrightarrow> a_iosb (asyncs s ! a) = msg_iosb m))"

text \<open>
  What the walk from \<open>s\<close> to \<open>s'\<close> has done for a message with the fate \<open>f\<close>: the async of
  a freed message is released; the status block of a woken message is complete with
  \<open>STATUS_SUCCESS\<close> and the full size as result, its writer async terminated and released;
  the status block of a kept message is as it was.
\<close>

definition fate_done :: "sys \<Rightarrow> sys \<Rightarrow> pipe_message \<Rightarrow> fate \<Rightarrow> bool" where
  "fate_done s s' m f =
     (case f of
        Freed \<Rightarrow> (\<exists>a. msg_async m = Some a \<and> Ev_release_async a \<in> set (trace s'))
      | Woken \<Rightarrow>
          iosb_status (iosbs s' (msg_iosb m)) = STATUS_SUCCESS \<and>
          iosb_result (iosbs s' (msg_iosb m)) = in_size (iosbs s (msg_iosb m)) \<and>
          (\<forall>a. msg_async m = Some a \<longrightarrow>
             \<not> is_pending s' a \<and>
             Ev_async_terminate a (if in_size (iosbs s (msg_iosb m)) \<noteq> 0
                                   then STATUS_ALERTED else STATUS_SUCCESS) \<in> set (trace s') \<and>
             Ev_release_async a \<in> set (trace s'))
      | Kept \<Rightarrow> iosbs s' (msg_iosb m) = iosbs s (msg_iosb m))"

text \<open>No event leaves the trace.\<close>

definition trace_grows :: "sys \<Rightarrow> sys \<Rightarrow> bool" where
  "trace_grows s s' = (set (trace s) \<subseteq> set (trace s'))"


section \<open>Example states\<close>

text \<open>
  A request that creates the message-mode pipe \<open>p\<close> with one instance and read sharing,
  and the memory of the server after it has been served from the initial memory.
\<close>

definition pipe_p :: object_attributes where
  "pipe_p = \<lparr>oa_rootdir = 0, oa_attributes = 0, oa_name = ''p''\<rparr>"

definition first_request :: create_named_pipe_request where
  "first_request =
     \<lparr>req_access = 0, req_options = 0, req_sharing = 1, req_maxinstances = 1,
      req_outsize = 4096, req_insize = 4096, req_timeout = 0,
      req_flags = NAMED_PIPE_MESSAGE_STREAM_WRITE\<rparr>"

definition second_request :: create_named_pipe_request where
  "second_request =
     \<lparr>req_access = 0, req_options = 0, req_sharing = 2, req_maxinstances = 1,
      req_outsize = 4096, req_insize = 4096, req_timeout = 0,
      req_flags = NAMED_PIPE_MESSAGE_STREAM_WRITE\<rparr>"

definition bad_sharing_request :: create_named_pipe_request where
  "bad_sharing_request =
     \<lparr>req_access = 0, req_options = 0, req_sharing = 4, req_maxinstances = 1,
      req_outsize = 4096, req_insize = 4096, req_timeout = 0,
      req_flags = NAMED_PIPE_MESSAGE_STREAM_WRITE\<rparr>"

definition one_pipe_sys :: sys where
  "one_pipe_sys =
     init_sys
       \<lparr>ends := (ends init_sys)(2 :=
          \<lparr>pe_fd = None, pe_flags = 1, pe_connection = None, pe_buffer_size = 4096,
           pe_message_queue = [], pe_read_q = None, pe_write_q = None\<rparr>),
        servers := (servers init_sys)(2 :=
          \<lparr>srv_ioctl_fd = Some 3, srv_state = ps_idle_server, srv_client = None,
           srv_pipe = 1, srv_flush_poll = False, srv_options = 0\<rparr>),
        obj_ops := (obj_ops init_sys)(1 := named_pipe_ops, 2 := pipe_server_ops),
        pipes := (pipes init_sys)(1 :=
          \<lparr>np_refcount = 1, np_flags = 1, np_sharing = 1, np_maxinstances = 1,
           np_outsize = 4096, np_insize = 4096, np_instances = 1, np_timeout = 0,
           np_servers = [2], np_waiters = None\<rparr>),
        namespace := (namespace init_sys)(''p'' := Some 1),
        fds := (fds init_sys)(3 :=
          \<lparr>fd_signaled = True, fd_no_fd_status = STATUS_PIPE_LISTENING,
           fd_wait_q = [], fd_unix = False, fd_pollin = False\<rparr>),
        next_addr := 4,
        next_handle := 1\<rparr>"

text \<open>
  The memory after a client has then opened \<open>p\<close> for reading: the server 2 and the
  client 4 are connected in message mode.
\<close>

definition connected_sys :: sys where
  "connected_sys =
     one_pipe_sys
       \<lparr>ends := (ends one_pipe_sys)
          (2 := (ends one_pipe_sys 2)\<lparr>pe_fd := Some 3, pe_connection := Some 4\<rparr>,
           4 := \<lparr>pe_fd = Some 5, pe_flags = 1, pe_connection = Some 2, pe_buffer_size = 4096,
                  pe_message_queue = [], pe_read_q = None, pe_write_q = None\<rparr>),
        servers := (servers one_pipe_sys)
          (2 := (servers one_pipe_sys 2)\<lparr>srv_state := ps_connected_server, srv_client := Some 4\<rparr>),
        clients := (clients one_pipe_sys)(4 := \<lparr>cl_server = Some 2, cl_flags = 0\<rparr>),
        obj_ops := (obj_ops one_pipe_sys)(4 := pipe_client_ops),
        fds := (fds one_pipe_sys)
          (5 := \<lparr>fd_signaled = True, fd_no_fd_status = STATUS_BAD_DEVICE_TYPE,
                  fd_wait_q = [], fd_unix = False, fd_pollin = False\<rparr>,
           3 := (fds one_pipe_sys 3)\<lparr>fd_no_fd_status := STATUS_BAD_DEVICE_TYPE\<rparr>),
        next_addr := 6\<rparr>"

text \<open>The same memory with the server of \<open>p\<close> put in a given state.\<close>

definition server_in :: "pipe_state \<Rightarrow> sys" where
  "server_in state = upd_server 2 (\<lambda>v. v\<lparr>srv_state := state\<rparr>) one_pipe_sys"

text \<open>The same memory with room for a second instance of \<open>p\<close>.\<close>

definition roomy_pipe_sys :: sys where
  "roomy_pipe_sys = upd_pipe 1 (\<lambda>p. p\<lparr>np_maxinstances := 2\<rparr>) one_pipe_sys"

definition valid_create_request :: "create_named_pipe_request \<Rightarrow> bool" where
  "valid_create_request req =
     (req_sharing req \<noteq> 0 \<and>
      req_sharing req AND NOT (FILE_SHARE_READ OR FILE_SHARE_WRITE) = 0 \<and>
      (req_flags req AND NAMED_PIPE_MESSAGE_STREAM_READ \<noteq> 0 \<longrightarrow>
       req_flags req AND NAMED_PIPE_MESSAGE_STREAM_WRITE \<noteq> 0))"

text \<open>
  The memory of \<open>connected_sys\<close> with two messages, \<open>ABC\<close> and \<open>DEFGH\<close>, in the queue of
  the client end 4, the read flags of that end set to \<open>flags\<close>, and a pending read of
  \<open>req\<close> bytes: the async 0 with the status block 8.
\<close>

definition message_abc :: pipe_message where
  "message_abc = \<lparr>read_pos = 0, msg_iosb = 6, msg_async = None\<rparr>"

definition message_defgh :: pipe_message where
  "message_defgh = \<lparr>read_pos = 0, msg_iosb = 7, msg_async = None\<rparr>"

definition queued_sys :: "uint \<Rightarrow> data_size_t \<Rightarrow> sys" where
  "queued_sys flags req =
     connected_sys
       \<lparr>ends := (ends connected_sys)
          (4 := (ends connected_sys 4)
                  \<lparr>pe_flags := flags, pe_message_queue := [message_abc, message_defgh]\<rparr>),
        asyncs := [\<lparr>a_status = STATUS_PENDING, a_iosb = 8, a_blocking = False,
                    a_queue = Other_queue\<rparr>],
        iosbs := (iosbs connected_sys)
          (6 := \<lparr>iosb_status = STATUS_SUCCESS, iosb_result = 3, in_size = 3,
                  in_data = Some [65, 66, 67], out_size = 0, out_data = None\<rparr>,
           7 := \<lparr>iosb_status = STATUS_SUCCESS, iosb_result = 5, in_size = 5,
                  in_data = Some [68, 69, 70, 71, 72], out_size = 0, out_data = None\<rparr>,
           8 := \<lparr>iosb_status = STATUS_PENDING, iosb_result = 0, in_size = 0,
                  in_data = None, out_size = req, out_data = None\<rparr>),
        next_addr := 9\<rparr>"

text \<open>
  The memory of \<open>queued_sys\<close> without the message-stream-read flag, with two messages of
  \<open>0x80000008\<close> bytes each in the queue of the client end 4, \<open>0x100000010\<close> bytes in all,
  and a pending read of \<open>0xFFFFFFFF\<close> bytes.
\<close>

definition long_data :: "byte list" where
  "long_data = replicate 2147483656 0"

definition long_a :: pipe_message where
  "long_a = \<lparr>read_pos = 0, msg_iosb = 6, msg_async = None\<rparr>"

definition long_b :: pipe_message where
  "long_b = \<lparr>read_pos = 0, msg_iosb = 7, msg_async = None\<rparr>"

definition long_sys :: sys where
  "long_sys =
     upd_iosb 7 (\<lambda>io. io\<lparr>iosb_result := 0x80000008, in_size := 0x80000008,
                            in_data := Some long_data\<rparr>)
       (upd_iosb 6 (\<lambda>io. io\<lparr>iosb_result := 0x80000008, in_size := 0x80000008,
                              in_data := Some long_data\<rparr>)
          (upd_end 4 (\<lambda>e. e\<lparr>pe_message_queue := [long_a, long_b]\<rparr>)
             (queued_sys 1 0xFFFFFFFF)))"

text \<open>
  The memory of \<open>queued_sys\<close> after the client end 4 has lost its peer, without the
  message-stream-read flag, with two messages of \<open>0x80000000\<close> bytes each in the queue of
  the end, their writes completed, and a pending read of \<open>0xFFFFFFFF\<close> bytes.
\<close>

definition half_data :: "byte list" where
  "half_data = replicate 2147483648 0"

definition half_a :: pipe_message where
  "half_a = \<lparr>read_pos = 0, msg_iosb = 6, msg_async = None\<rparr>"

definition half_b :: pipe_message where
  "half_b = \<lparr>read_pos = 0, msg_iosb = 7, msg_async = None\<rparr>"

definition stuck_sys :: sys where
  "stuck_sys =
     upd_iosb 7 (\<lambda>io. io\<lparr>iosb_result := 0x80000000, in_size := 0x80000000,
                            in_data := Some half_data\<rparr>)
       (upd_iosb 6 (\<lambda>io. io\<lparr>iosb_result := 0x80000000, in_size := 0x80000000,
                              in_data := Some half_data\<rparr>)
          (upd_end 4 (\<lambda>e. e\<lparr>pe_connection := None, pe_message_queue := [half_a, half_b]\<rparr>)
             (queued_sys 1 0xFFFFFFFF)))"

text \<open>
  The memory of \<open>queued_sys\<close> after the client end 4 has lost its peer, and the same with
  the queue of the end drained.
\<close>

definition broken_sys :: "uint \<Rightarrow> data_size_t \<Rightarrow> sys" where
  "broken_sys flags req = upd_end 4 (\<lambda>x. x\<lparr>pe_connection := None\<rparr>) (queued_sys flags req)"

definition drained_sys :: sys where
  "drained_sys = upd_end 4 (\<lambda>x. x\<lparr>pe_message_queue := []\<rparr>) (broken_sys 1 4)"


text \<open>
  The memory of \<open>queued_sys\<close> with three messages in the queue of the client end 4: one
  whose write was cancelled (its async 2 is complete with \<open>STATUS_IO_TIMEOUT\<close>), the woken
  message \<open>ABC\<close>, and one whose write, the async 1, is still pending.
\<close>

definition message_late :: pipe_message where
  "message_late = \<lparr>read_pos = 0, msg_iosb = 9, msg_async = Some 1\<rparr>"

definition message_gone :: pipe_message where
  "message_gone = \<lparr>read_pos = 0, msg_iosb = 10, msg_async = Some 2\<rparr>"

definition writing_sys :: sys where
  "writing_sys =
     (queued_sys 1 4)
       \<lparr>ends := (ends (queued_sys 1 4))
          (4 := (ends (queued_sys 1 4) 4)
                  \<lparr>pe_message_queue := [message_gone, message_abc, message_late]\<rparr>),
        asyncs := [\<lparr>a_status = STATUS_PENDING, a_iosb = 8, a_blocking = False,
                    a_queue = Other_queue\<rparr>,
                   \<lparr>a_status = STATUS_PENDING, a_iosb = 9, a_blocking = False,
                    a_queue = Write_q_of 2\<rparr>,
                   \<lparr>a_status = STATUS_IO_TIMEOUT, a_iosb = 10, a_blocking = False,
                    a_queue = Write_q_of 2\<rparr>],
        iosbs := (iosbs (queued_sys 1 4))
          (9 := \<lparr>iosb_status = STATUS_PENDING, iosb_result = 0, in_size = 2,
                  in_data = Some [73, 74], out_size = 0, out_data = None\<rparr>,
           10 := \<lparr>iosb_status = STATUS_IO_TIMEOUT, iosb_result = 0, in_size = 1,
                   in_data = Some [75], out_size = 0, out_data = None\<rparr>),
        next_addr := 11\<rparr>"


text \<open>
  The memory of \<open>writing_sys\<close> when the server end 2 is being torn down: the connections
  of both ends are cleared, and the queue of the client end 4 is still as it was.
\<close>

definition torn_sys :: sys where
  "torn_sys =
     upd_end 2 (\<lambda>e. e\<lparr>pe_connection := None\<rparr>)
       (upd_end 4 (\<lambda>e. e\<lparr>pe_connection := None\<rparr>) writing_sys)"


text \<open>
  A pipe \<open>p\<close> in byte mode: the request that creates it, the memory after the request has
  been served from the initial memory, and the memory after a client has opened the pipe
  for reading and writing: the server 2 and the client 4 are connected over a host
  socket pair, the client's end of it the descriptor 5, the server's the descriptor 6.
\<close>

definition byte_request :: create_named_pipe_request where
  "byte_request =
     \<lparr>req_access = 0, req_options = 0, req_sharing = 3, req_maxinstances = 1,
      req_outsize = 4096, req_insize = 4096, req_timeout = 0, req_flags = 0\<rparr>"

definition byte_pipe_sys :: sys where
  "byte_pipe_sys =
     init_sys
       \<lparr>ends := (ends init_sys)(2 :=
          \<lparr>pe_fd = None, pe_flags = 0, pe_connection = None, pe_buffer_size = 4096,
           pe_message_queue = [], pe_read_q = None, pe_write_q = None\<rparr>),
        servers := (servers init_sys)(2 :=
          \<lparr>srv_ioctl_fd = Some 3, srv_state = ps_idle_server, srv_client = None,
           srv_pipe = 1, srv_flush_poll = False, srv_options = 0\<rparr>),
        obj_ops := (obj_ops init_sys)(1 := named_pipe_ops, 2 := pipe_server_ops),
        pipes := (pipes init_sys)(1 :=
          \<lparr>np_refcount = 1, np_flags = 0, np_sharing = 3, np_maxinstances = 1,
           np_outsize = 4096, np_insize = 4096, np_instances = 1, np_timeout = 0,
           np_servers = [2], np_waiters = None\<rparr>),
        namespace := (namespace init_sys)(''p'' := Some 1),
        fds := (fds init_sys)(3 :=
          \<lparr>fd_signaled = True, fd_no_fd_status = STATUS_PIPE_LISTENING,
           fd_wait_q = [], fd_unix = False, fd_pollin = False\<rparr>),
        next_addr := 4,
        next_handle := 1\<rparr>"

definition byte_connected_sys :: sys where
  "byte_connected_sys =
     byte_pipe_sys
       \<lparr>ends := (ends byte_pipe_sys)
          (2 := (ends byte_pipe_sys 2)\<lparr>pe_fd := Some 6, pe_connection := Some 4\<rparr>,
           4 := \<lparr>pe_fd = Some 5, pe_flags = 0, pe_connection = Some 2, pe_buffer_size = 4096,
                  pe_message_queue = [], pe_read_q = None, pe_write_q = None\<rparr>),
        servers := (servers byte_pipe_sys)
          (2 := (servers byte_pipe_sys 2)\<lparr>srv_state := ps_connected_server, srv_client := Some 4\<rparr>),
        clients := (clients byte_pipe_sys)(4 := \<lparr>cl_server = Some 2, cl_flags = 0\<rparr>),
        obj_ops := (obj_ops byte_pipe_sys)(4 := pipe_client_ops),
        fds := (fds byte_pipe_sys)
          (5 := \<lparr>fd_signaled = False, fd_no_fd_status = STATUS_BAD_DEVICE_TYPE,
                  fd_wait_q = [], fd_unix = True, fd_pollin = False\<rparr>,
           6 := \<lparr>fd_signaled = False, fd_no_fd_status = STATUS_BAD_DEVICE_TYPE,
                  fd_wait_q = [], fd_unix = True, fd_pollin = False\<rparr>),
        next_addr := 7\<rparr>"

text \<open>
  The client has written bytes that the server has not read, so the server's socket is
  readable, and then asks for a flush: \<open>client_flush_sys\<close> is the memory with the async of
  that request.  And the other way round: the server has written, the client's socket
  is readable, and the server asks for a flush.
\<close>

definition byte_written_sys :: sys where
  "byte_written_sys = upd_fd 6 (\<lambda>d. d\<lparr>fd_pollin := True\<rparr>) byte_connected_sys"

definition client_flush_sys :: sys where
  "client_flush_sys = snd (create_request_async [] 0 True (clear_error byte_written_sys))"

definition byte_answered_sys :: sys where
  "byte_answered_sys = upd_fd 5 (\<lambda>d. d\<lparr>fd_pollin := True\<rparr>) byte_connected_sys"

definition server_flush_sys :: sys where
  "server_flush_sys = snd (create_request_async [] 0 True (clear_error byte_answered_sys))"


section \<open>Properties\<close>

lemmas const_defs =
  FILE_SHARE_READ_def FILE_SHARE_WRITE_def GENERIC_READ_def GENERIC_WRITE_def
  NAMED_PIPE_MESSAGE_STREAM_WRITE_def NAMED_PIPE_MESSAGE_STREAM_READ_def

lemmas create_defs =
  create_named_pipe_def create_named_object_def clear_error_def set_error_def alloc_object_def
  host_ok_def alloc_addr_def upd_pipe_def add_pipe_server_def create_pipe_server_def
  upd_server_def init_pipe_end_def grab_pipe_def alloc_fd_def set_fd_signaled_def upd_fd_def
  set_server_state_def c_assert_def set_no_fd_status_def alloc_handle_def release_pipe_def

lemma one_pipe_sys_created:
  "create_named_pipe first_request (Some pipe_p) init_sys = Some (1, one_pipe_sys)"
  by (simp add: eval_nat_numeral first_request_def pipe_p_def init_sys_def one_pipe_sys_def
      const_defs create_defs Let_def)

lemmas open_defs =
  named_pipe_open_file_def find_available_server_def create_pipe_client_def open_file_fds_def
  use_server_io_def upd_end_def upd_client_def fd_async_wake_up_def

lemma connected_sys_opened:
  "named_pipe_open_file 1 GENERIC_READ 0 0 one_pipe_sys = Some (Some 4, connected_sys)"
  by (simp add: eval_nat_numeral connected_sys_def one_pipe_sys_def init_sys_def
      const_defs create_defs open_defs Let_def)


lemma disconnect_messages_done:
  "length (pe_message_queue (ends s pipe_end)) \<le> k \<Longrightarrow>
   disconnect_messages pipe_end status k s = Some s"
  by (subst disconnect_messages.simps) simp

lemmas disconnect_defs =
  disconnect_server_io_def async_wake_up_def set_fd_signaled_def log_event_def
  disconnect_messages_done

subsection \<open>Validation of create\_named\_pipe\<close>

text \<open>
  Claim C9.  A \<open>create_named_pipe\<close> request whose sharing is zero, or has a bit outside
  share-read and share-write, or whose flags have message-stream-read without
  message-stream-write, fails with \<open>STATUS_INVALID_PARAMETER\<close>; it returns no handle and
  leaves the whole memory as it was but for the error, so no named pipe and no server is
  created.
\<close>

theorem create_named_pipe_invalid_parameter:
  assumes "req_sharing req = 0 \<or>
           req_sharing req AND NOT (FILE_SHARE_READ OR FILE_SHARE_WRITE) \<noteq> 0 \<or>
           (req_flags req AND NAMED_PIPE_MESSAGE_STREAM_READ \<noteq> 0 \<and>
            req_flags req AND NAMED_PIPE_MESSAGE_STREAM_WRITE = 0)"
  shows "create_named_pipe req (Some oa) s = Some (0, s\<lparr>cur_error := STATUS_INVALID_PARAMETER\<rparr>)"
  using assms by (auto simp: create_named_pipe_def set_error_def)

theorem create_named_pipe_invalid_parameter_witness:
  "req_sharing bad_sharing_request AND NOT (FILE_SHARE_READ OR FILE_SHARE_WRITE) \<noteq> 0 \<and>
   create_named_pipe bad_sharing_request (Some pipe_p) init_sys
     = Some (0, init_sys\<lparr>cur_error := STATUS_INVALID_PARAMETER\<rparr>)"
proof -
  have h: "req_sharing bad_sharing_request AND NOT (FILE_SHARE_READ OR FILE_SHARE_WRITE) \<noteq> 0"
    by (simp add: bad_sharing_request_def const_defs)
  then show ?thesis
    using create_named_pipe_invalid_parameter [of bad_sharing_request pipe_p init_sys] by simp
qed

subsection \<open>A second create\_named\_pipe on an existing pipe\<close>

lemma create_existing_full:
  assumes "valid_create_request req" "oa_name oa \<noteq> []" "namespace s (oa_name oa) = Some pipe"
    "np_refcount (pipes s pipe) \<noteq> 0"
    "np_maxinstances (pipes s pipe) \<le> np_instances (pipes s pipe)"
  shows "create_named_pipe req (Some oa) s = Some (0, s\<lparr>cur_error := STATUS_INSTANCE_NOT_AVAILABLE\<rparr>)"
proof -
  let ?s2 = "set_error STATUS_OBJECT_NAME_EXISTS (grab_pipe pipe (clear_error s))"
  have 1: "create_named_object (oa_name oa) s = (Some pipe, ?s2)"
    using assms(2,3) by (simp add: create_named_object_def clear_error_def Let_def)
  have 2: "release_pipe pipe (set_error STATUS_INSTANCE_NOT_AVAILABLE ?s2)
             = Some (s\<lparr>cur_error := STATUS_INSTANCE_NOT_AVAILABLE\<rparr>)"
    using assms(4)
    by (simp add: release_pipe_def c_assert_def upd_pipe_def set_error_def grab_pipe_def clear_error_def Let_def)
  show ?thesis
    using assms(1,2,5) 1 2
    by (auto simp: create_named_pipe_def valid_create_request_def set_error_def grab_pipe_def upd_pipe_def clear_error_def)
qed

lemma create_existing_denied:
  assumes "valid_create_request req" "oa_name oa \<noteq> []" "namespace s (oa_name oa) = Some pipe"
    "np_refcount (pipes s pipe) \<noteq> 0"
    "np_instances (pipes s pipe) < np_maxinstances (pipes s pipe)"
    "np_sharing (pipes s pipe) \<noteq> req_sharing req"
  shows "create_named_pipe req (Some oa) s = Some (0, s\<lparr>cur_error := STATUS_ACCESS_DENIED\<rparr>)"
proof -
  let ?s2 = "set_error STATUS_OBJECT_NAME_EXISTS (grab_pipe pipe (clear_error s))"
  have 1: "create_named_object (oa_name oa) s = (Some pipe, ?s2)"
    using assms(2,3) by (simp add: create_named_object_def clear_error_def Let_def)
  have 2: "release_pipe pipe (set_error STATUS_ACCESS_DENIED ?s2)
             = Some (s\<lparr>cur_error := STATUS_ACCESS_DENIED\<rparr>)"
    using assms(4)
    by (simp add: release_pipe_def c_assert_def upd_pipe_def set_error_def grab_pipe_def clear_error_def Let_def)
  show ?thesis
    using assms(1,2,5,6) 1 2
    by (auto simp: create_named_pipe_def valid_create_request_def set_error_def grab_pipe_def upd_pipe_def clear_error_def)
qed

lemma create_existing_added:
  assumes "valid_create_request req" "oa_name oa \<noteq> []" "namespace s (oa_name oa) = Some pipe"
    "np_instances (pipes s pipe) < np_maxinstances (pipes s pipe)"
    "np_sharing (pipes s pipe) = req_sharing req"
    "host s = []"
  shows "\<exists>handle s'. create_named_pipe req (Some oa) s = Some (handle, s') \<and>
           handle \<noteq> 0 \<and> cur_error s' = STATUS_SUCCESS \<and>
           obj_ops s' (next_addr s) = pipe_server_ops \<and>
           srv_state (servers s' (next_addr s)) = ps_idle_server \<and>
           srv_pipe (servers s' (next_addr s)) = pipe \<and>
           np_servers (pipes s' pipe) = next_addr s # np_servers (pipes s pipe) \<and>
           np_instances (pipes s' pipe) = np_instances (pipes s pipe) + 1"
  using assms
  by (auto simp: valid_create_request_def create_defs Let_def)

text \<open>
  Claim C6, as the code has it.  The code tests the instance count before the sharing,
  so a request that differs in sharing from a pipe that is already full is refused with
  \<open>STATUS_INSTANCE_NOT_AVAILABLE\<close> and not with \<open>STATUS_ACCESS_DENIED\<close>: the counterexample.
  What holds, for a valid request that finds the live pipe \<open>pipe\<close> under its name: if
  \<open>instances \<ge> maxinstances\<close> it fails with \<open>STATUS_INSTANCE_NOT_AVAILABLE\<close>; otherwise, if
  the sharing differs, it fails with \<open>STATUS_ACCESS_DENIED\<close>; on both failures no handle is
  returned and the memory is as before but for the error (no server added, instance count
  unchanged).  Otherwise, when the host refuses no allocation, the error is cleared, a
  new server in state \<open>ps_idle_server\<close> is put at the head of the pipe's server list and
  the instance count grows by one.
\<close>

theorem create_named_pipe_sharing_counterexample:
  "namespace one_pipe_sys (oa_name pipe_p) = Some 1 \<and>
   np_sharing (pipes one_pipe_sys 1) \<noteq> req_sharing second_request \<and>
   create_named_pipe second_request (Some pipe_p) one_pipe_sys
     = Some (0, one_pipe_sys\<lparr>cur_error := STATUS_INSTANCE_NOT_AVAILABLE\<rparr>) \<and>
   STATUS_INSTANCE_NOT_AVAILABLE \<noteq> STATUS_ACCESS_DENIED"
  by (simp add: second_request_def pipe_p_def init_sys_def one_pipe_sys_def
      const_defs create_defs Let_def)

theorem create_named_pipe_existing:
  assumes "valid_create_request req" and "oa_name oa \<noteq> []"
    and "namespace s (oa_name oa) = Some pipe" and "np_refcount (pipes s pipe) \<noteq> 0"
  shows
    "(np_maxinstances (pipes s pipe) \<le> np_instances (pipes s pipe) \<longrightarrow>
        create_named_pipe req (Some oa) s
          = Some (0, s\<lparr>cur_error := STATUS_INSTANCE_NOT_AVAILABLE\<rparr>)) \<and>
     (np_instances (pipes s pipe) < np_maxinstances (pipes s pipe) \<and>
      np_sharing (pipes s pipe) \<noteq> req_sharing req \<longrightarrow>
        create_named_pipe req (Some oa) s
          = Some (0, s\<lparr>cur_error := STATUS_ACCESS_DENIED\<rparr>)) \<and>
     (np_instances (pipes s pipe) < np_maxinstances (pipes s pipe) \<and>
      np_sharing (pipes s pipe) = req_sharing req \<and> host s = [] \<longrightarrow>
        (\<exists>handle s'. create_named_pipe req (Some oa) s = Some (handle, s') \<and>
           handle \<noteq> 0 \<and> cur_error s' = STATUS_SUCCESS \<and>
           obj_ops s' (next_addr s) = pipe_server_ops \<and>
           srv_state (servers s' (next_addr s)) = ps_idle_server \<and>
           srv_pipe (servers s' (next_addr s)) = pipe \<and>
           np_servers (pipes s' pipe) = next_addr s # np_servers (pipes s pipe) \<and>
           np_instances (pipes s' pipe) = np_instances (pipes s pipe) + 1))"
  using create_existing_full [OF assms] create_existing_denied [OF assms]
    create_existing_added [OF assms(1,2,3)]
  by blast


theorem create_named_pipe_existing_witness:
  "create_named_pipe second_request (Some pipe_p) one_pipe_sys
     = Some (0, one_pipe_sys\<lparr>cur_error := STATUS_INSTANCE_NOT_AVAILABLE\<rparr>) \<and>
   create_named_pipe second_request (Some pipe_p) roomy_pipe_sys
     = Some (0, roomy_pipe_sys\<lparr>cur_error := STATUS_ACCESS_DENIED\<rparr>) \<and>
   (\<exists>handle s'. create_named_pipe first_request (Some pipe_p) roomy_pipe_sys = Some (handle, s') \<and>
      handle \<noteq> 0 \<and> cur_error s' = STATUS_SUCCESS \<and>
      obj_ops s' 4 = pipe_server_ops \<and> srv_state (servers s' 4) = ps_idle_server \<and>
      srv_pipe (servers s' 4) = 1 \<and> np_servers (pipes s' 1) = [4, 2] \<and>
      np_instances (pipes s' 1) = 2)"
proof -
  have v1: "valid_create_request first_request" and v2: "valid_create_request second_request"
    by (simp_all add: valid_create_request_def first_request_def second_request_def const_defs)
  have n: "oa_name pipe_p \<noteq> []" by (simp add: pipe_p_def)
  have a: "namespace one_pipe_sys (oa_name pipe_p) = Some 1"
    "np_refcount (pipes one_pipe_sys 1) \<noteq> 0"
    "np_maxinstances (pipes one_pipe_sys 1) \<le> np_instances (pipes one_pipe_sys 1)"
    by (simp_all add: one_pipe_sys_def init_sys_def pipe_p_def)
  have b: "namespace roomy_pipe_sys (oa_name pipe_p) = Some 1"
    "np_refcount (pipes roomy_pipe_sys 1) \<noteq> 0"
    "np_instances (pipes roomy_pipe_sys 1) < np_maxinstances (pipes roomy_pipe_sys 1)"
    "np_sharing (pipes roomy_pipe_sys 1) \<noteq> req_sharing second_request"
    "np_sharing (pipes roomy_pipe_sys 1) = req_sharing first_request"
    "host roomy_pipe_sys = []" "next_addr roomy_pipe_sys = 4"
    "np_servers (pipes roomy_pipe_sys 1) = [2]" "np_instances (pipes roomy_pipe_sys 1) = 1"
    by (simp_all add: roomy_pipe_sys_def upd_pipe_def one_pipe_sys_def init_sys_def pipe_p_def
        first_request_def second_request_def)
  show ?thesis
    using create_named_pipe_existing [OF v2 n a(1,2)]
      create_named_pipe_existing [OF v2 n b(1,2)]
      create_named_pipe_existing [OF v1 n b(1,2)] a b
    by simp
qed



subsection \<open>The failing ioctls of a server\<close>

text \<open>
  Claim C4.  The ioctls that the state table refuses return no wait handle and leave the
  whole memory of the server as it was but for the error, which is the status of the
  table: \<^verbatim>\<open>FSCTL_PIPE_LISTEN\<close> gives \<open>STATUS_INVALID_HANDLE\<close> in \<open>ps_wait_open\<close>,
  \<open>STATUS_PIPE_CONNECTED\<close> in \<open>ps_connected_server\<close> and \<open>STATUS_NO_DATA_DETECTED\<close> in
  \<open>ps_wait_disconnect\<close>; \<^verbatim>\<open>FSCTL_PIPE_DISCONNECT\<close> gives \<open>STATUS_PIPE_LISTENING\<close> in
  \<open>ps_idle_server\<close> and \<open>ps_wait_open\<close>, and \<open>STATUS_PIPE_DISCONNECTED\<close> in
  \<open>ps_wait_connect\<close>.  The state, the queues and the file descriptors are part of that
  memory, so a second listen from \<open>ps_wait_open\<close> has no side effect.
\<close>

theorem pipe_server_ioctl_failures:
  "(srv_state (servers s server) = ps_wait_open \<longrightarrow>
      pipe_server_ioctl server FSCTL_PIPE_LISTEN async reply_size s
        = Some (0, s\<lparr>cur_error := STATUS_INVALID_HANDLE\<rparr>)) \<and>
   (srv_state (servers s server) = ps_connected_server \<longrightarrow>
      pipe_server_ioctl server FSCTL_PIPE_LISTEN async reply_size s
        = Some (0, s\<lparr>cur_error := STATUS_PIPE_CONNECTED\<rparr>)) \<and>
   (srv_state (servers s server) = ps_wait_disconnect \<longrightarrow>
      pipe_server_ioctl server FSCTL_PIPE_LISTEN async reply_size s
        = Some (0, s\<lparr>cur_error := STATUS_NO_DATA_DETECTED\<rparr>)) \<and>
   (srv_state (servers s server) = ps_idle_server \<or> srv_state (servers s server) = ps_wait_open \<longrightarrow>
      pipe_server_ioctl server FSCTL_PIPE_DISCONNECT async reply_size s
        = Some (0, s\<lparr>cur_error := STATUS_PIPE_LISTENING\<rparr>)) \<and>
   (srv_state (servers s server) = ps_wait_connect \<longrightarrow>
      pipe_server_ioctl server FSCTL_PIPE_DISCONNECT async reply_size s
        = Some (0, s\<lparr>cur_error := STATUS_PIPE_DISCONNECTED\<rparr>))"
  by (auto simp: pipe_server_ioctl_def set_error_def)

theorem pipe_server_ioctl_failures_witness:
  "pipe_server_ioctl 2 FSCTL_PIPE_LISTEN 0 0 (server_in ps_wait_open)
     = Some (0, (server_in ps_wait_open)\<lparr>cur_error := STATUS_INVALID_HANDLE\<rparr>) \<and>
   pipe_server_ioctl 2 FSCTL_PIPE_LISTEN 0 0 (server_in ps_connected_server)
     = Some (0, (server_in ps_connected_server)\<lparr>cur_error := STATUS_PIPE_CONNECTED\<rparr>) \<and>
   pipe_server_ioctl 2 FSCTL_PIPE_LISTEN 0 0 (server_in ps_wait_disconnect)
     = Some (0, (server_in ps_wait_disconnect)\<lparr>cur_error := STATUS_NO_DATA_DETECTED\<rparr>) \<and>
   pipe_server_ioctl 2 FSCTL_PIPE_DISCONNECT 0 0 (server_in ps_idle_server)
     = Some (0, (server_in ps_idle_server)\<lparr>cur_error := STATUS_PIPE_LISTENING\<rparr>) \<and>
   pipe_server_ioctl 2 FSCTL_PIPE_DISCONNECT 0 0 (server_in ps_wait_open)
     = Some (0, (server_in ps_wait_open)\<lparr>cur_error := STATUS_PIPE_LISTENING\<rparr>) \<and>
   pipe_server_ioctl 2 FSCTL_PIPE_DISCONNECT 0 0 (server_in ps_wait_connect)
     = Some (0, (server_in ps_wait_connect)\<lparr>cur_error := STATUS_PIPE_DISCONNECTED\<rparr>)"
proof -
  have st: "srv_state (servers (server_in state) 2) = state" for state
    by (simp add: server_in_def upd_server_def)
  show ?thesis
    using pipe_server_ioctl_failures [of "server_in ps_wait_open" 2 0 0]
      pipe_server_ioctl_failures [of "server_in ps_connected_server" 2 0 0]
      pipe_server_ioctl_failures [of "server_in ps_wait_disconnect" 2 0 0]
      pipe_server_ioctl_failures [of "server_in ps_idle_server" 2 0 0]
      pipe_server_ioctl_failures [of "server_in ps_wait_connect" 2 0 0]
    by (simp add: st)
qed

subsection \<open>The client open: choice of the server and access check\<close>

lemma find_wait_open:
  "\<exists>x \<in> set (np_servers (pipes s pipe)). srv_state (servers s x) = ps_wait_open \<Longrightarrow>
   \<exists>server. find_available_server pipe s = Some server \<and>
            server \<in> set (np_servers (pipes s pipe)) \<and>
            srv_state (servers s server) = ps_wait_open"
proof -
  assume a: "\<exists>x \<in> set (np_servers (pipes s pipe)). srv_state (servers s x) = ps_wait_open"
  then obtain server where
    f: "find (\<lambda>x. srv_state (servers s x) = ps_wait_open) (np_servers (pipes s pipe)) = Some server"
    by (cases "find (\<lambda>x. srv_state (servers s x) = ps_wait_open) (np_servers (pipes s pipe))")
       (auto simp: find_None_iff)
  then have "server \<in> set (np_servers (pipes s pipe)) \<and> srv_state (servers s server) = ps_wait_open"
    by (auto simp: find_Some_iff)
  with f show ?thesis by (simp add: find_available_server_def)
qed

lemma find_idle:
  "\<forall>x \<in> set (np_servers (pipes s pipe)). srv_state (servers s x) \<noteq> ps_wait_open \<Longrightarrow>
   \<exists>x \<in> set (np_servers (pipes s pipe)). srv_state (servers s x) = ps_idle_server \<Longrightarrow>
   \<exists>server. find_available_server pipe s = Some server \<and>
            server \<in> set (np_servers (pipes s pipe)) \<and>
            srv_state (servers s server) = ps_idle_server"
proof -
  assume n: "\<forall>x \<in> set (np_servers (pipes s pipe)). srv_state (servers s x) \<noteq> ps_wait_open"
    and a: "\<exists>x \<in> set (np_servers (pipes s pipe)). srv_state (servers s x) = ps_idle_server"
  from n have w: "find (\<lambda>x. srv_state (servers s x) = ps_wait_open) (np_servers (pipes s pipe)) = None"
    by (simp add: find_None_iff)
  from a obtain server where
    f: "find (\<lambda>x. srv_state (servers s x) = ps_idle_server) (np_servers (pipes s pipe)) = Some server"
    by (cases "find (\<lambda>x. srv_state (servers s x) = ps_idle_server) (np_servers (pipes s pipe))")
       (auto simp: find_None_iff)
  then have "server \<in> set (np_servers (pipes s pipe)) \<and> srv_state (servers s server) = ps_idle_server"
    by (auto simp: find_Some_iff)
  with f w show ?thesis by (simp add: find_available_server_def)
qed

lemma find_none:
  "\<forall>x \<in> set (np_servers (pipes s pipe)).
      srv_state (servers s x) \<noteq> ps_wait_open \<and> srv_state (servers s x) \<noteq> ps_idle_server \<Longrightarrow>
   find_available_server pipe s = None"
proof -
  assume a: "\<forall>x \<in> set (np_servers (pipes s pipe)).
      srv_state (servers s x) \<noteq> ps_wait_open \<and> srv_state (servers s x) \<noteq> ps_idle_server"
  then have "find (\<lambda>x. srv_state (servers s x) = ps_wait_open) (np_servers (pipes s pipe)) = None"
    by (simp add: find_None_iff)
  moreover from a
  have "find (\<lambda>x. srv_state (servers s x) = ps_idle_server) (np_servers (pipes s pipe)) = None"
    by (simp add: find_None_iff)
  ultimately show ?thesis by (simp add: find_available_server_def)
qed

text \<open>
  Claim C5.  A client open on the named pipe \<open>pipe\<close> takes a server of the pipe's list in
  state \<open>ps_wait_open\<close> if there is one, otherwise one in state \<open>ps_idle_server\<close>; if there
  is neither it fails with \<open>STATUS_PIPE_NOT_AVAILABLE\<close>.  When a server is found and the
  access asked for conflicts with the sharing of the pipe (\<^verbatim>\<open>GENERIC_READ\<close> without
  share-read, or \<^verbatim>\<open>GENERIC_WRITE\<close> without share-write), the open fails with
  \<open>STATUS_ACCESS_DENIED\<close>.  Both failures return no client and leave the memory as it was
  but for the error, the state of the server included.
\<close>

theorem named_pipe_open_file_choice:
  "((\<exists>x \<in> set (np_servers (pipes s pipe)). srv_state (servers s x) = ps_wait_open) \<longrightarrow>
      (\<exists>server. find_available_server pipe s = Some server \<and>
                server \<in> set (np_servers (pipes s pipe)) \<and>
                srv_state (servers s server) = ps_wait_open)) \<and>
   ((\<forall>x \<in> set (np_servers (pipes s pipe)). srv_state (servers s x) \<noteq> ps_wait_open) \<and>
    (\<exists>x \<in> set (np_servers (pipes s pipe)). srv_state (servers s x) = ps_idle_server) \<longrightarrow>
      (\<exists>server. find_available_server pipe s = Some server \<and>
                server \<in> set (np_servers (pipes s pipe)) \<and>
                srv_state (servers s server) = ps_idle_server)) \<and>
   ((\<forall>x \<in> set (np_servers (pipes s pipe)).
        srv_state (servers s x) \<noteq> ps_wait_open \<and> srv_state (servers s x) \<noteq> ps_idle_server) \<longrightarrow>
      named_pipe_open_file pipe access sharing options s
        = Some (None, s\<lparr>cur_error := STATUS_PIPE_NOT_AVAILABLE\<rparr>)) \<and>
   (\<forall>server. find_available_server pipe s = Some server \<and> srv_pipe (servers s server) = pipe \<and>
       ((access AND GENERIC_READ \<noteq> 0 \<and> np_sharing (pipes s pipe) AND FILE_SHARE_READ = 0) \<or>
        (access AND GENERIC_WRITE \<noteq> 0 \<and> np_sharing (pipes s pipe) AND FILE_SHARE_WRITE = 0)) \<longrightarrow>
      named_pipe_open_file pipe access sharing options s
        = Some (None, s\<lparr>cur_error := STATUS_ACCESS_DENIED\<rparr>))"
proof (intro conjI impI allI)
  assume "\<exists>x \<in> set (np_servers (pipes s pipe)). srv_state (servers s x) = ps_wait_open"
  then show "\<exists>server. find_available_server pipe s = Some server \<and>
                server \<in> set (np_servers (pipes s pipe)) \<and>
                srv_state (servers s server) = ps_wait_open"
    by (rule find_wait_open)
next
  assume "(\<forall>x \<in> set (np_servers (pipes s pipe)). srv_state (servers s x) \<noteq> ps_wait_open) \<and>
    (\<exists>x \<in> set (np_servers (pipes s pipe)). srv_state (servers s x) = ps_idle_server)"
  then show "\<exists>server. find_available_server pipe s = Some server \<and>
                server \<in> set (np_servers (pipes s pipe)) \<and>
                srv_state (servers s server) = ps_idle_server"
    using find_idle by blast
next
  assume "\<forall>x \<in> set (np_servers (pipes s pipe)).
        srv_state (servers s x) \<noteq> ps_wait_open \<and> srv_state (servers s x) \<noteq> ps_idle_server"
  then have "find_available_server pipe s = None" by (rule find_none)
  then show "named_pipe_open_file pipe access sharing options s
        = Some (None, s\<lparr>cur_error := STATUS_PIPE_NOT_AVAILABLE\<rparr>)"
    by (simp add: named_pipe_open_file_def set_error_def)
next
  fix server
  assume "find_available_server pipe s = Some server \<and> srv_pipe (servers s server) = pipe \<and>
       ((access AND GENERIC_READ \<noteq> 0 \<and> np_sharing (pipes s pipe) AND FILE_SHARE_READ = 0) \<or>
        (access AND GENERIC_WRITE \<noteq> 0 \<and> np_sharing (pipes s pipe) AND FILE_SHARE_WRITE = 0))"
  then show "named_pipe_open_file pipe access sharing options s
        = Some (None, s\<lparr>cur_error := STATUS_ACCESS_DENIED\<rparr>)"
    by (auto simp: named_pipe_open_file_def set_error_def Let_def)
qed


theorem named_pipe_open_file_choice_witness:
  "find_available_server 1 (server_in ps_wait_open) = Some 2 \<and>
   find_available_server 1 one_pipe_sys = Some 2 \<and>
   named_pipe_open_file 1 GENERIC_READ 0 0 (server_in ps_connected_server)
     = Some (None, (server_in ps_connected_server)\<lparr>cur_error := STATUS_PIPE_NOT_AVAILABLE\<rparr>) \<and>
   named_pipe_open_file 1 GENERIC_WRITE 0 0 one_pipe_sys
     = Some (None, one_pipe_sys\<lparr>cur_error := STATUS_ACCESS_DENIED\<rparr>)"
proof -
  have l: "np_servers (pipes (server_in state) 1) = [2]"
    "srv_state (servers (server_in state) 2) = state" for state
    by (simp_all add: server_in_def upd_server_def one_pipe_sys_def init_sys_def)
  have i: "np_servers (pipes one_pipe_sys 1) = [2]"
    "srv_state (servers one_pipe_sys 2) = ps_idle_server"
    "srv_pipe (servers one_pipe_sys 2) = 1"
    "GENERIC_WRITE AND GENERIC_WRITE \<noteq> 0"
    "np_sharing (pipes one_pipe_sys 1) AND FILE_SHARE_WRITE = 0"
    by (simp_all add: one_pipe_sys_def init_sys_def const_defs)
  have 1: "find_available_server 1 (server_in ps_wait_open) = Some 2"
    using named_pipe_open_file_choice [of "server_in ps_wait_open" 1] l by auto
  have 2: "find_available_server 1 one_pipe_sys = Some 2"
    using named_pipe_open_file_choice [of one_pipe_sys 1] i by auto
  have 3: "named_pipe_open_file 1 GENERIC_READ 0 0 (server_in ps_connected_server)
     = Some (None, (server_in ps_connected_server)\<lparr>cur_error := STATUS_PIPE_NOT_AVAILABLE\<rparr>)"
    using named_pipe_open_file_choice [of "server_in ps_connected_server" 1 GENERIC_READ 0 0] l
    by simp
  have 4: "named_pipe_open_file 1 GENERIC_WRITE 0 0 one_pipe_sys
     = Some (None, one_pipe_sys\<lparr>cur_error := STATUS_ACCESS_DENIED\<rparr>)"
    using named_pipe_open_file_choice [of one_pipe_sys 1 GENERIC_WRITE 0 0] 2 i by simp
  from 1 2 3 4 show ?thesis by simp
qed


subsection \<open>Termination of pipe\_end\_disconnect\<close>

lemma upd_end_connection_None:
  "pe_connection (ends s pipe_end) = None \<Longrightarrow>
   upd_end pipe_end (\<lambda>e. e\<lparr>pe_connection := None\<rparr>) s = s"
proof -
  assume a: "pe_connection (ends s pipe_end) = None"
  have "(ends s pipe_end)\<lparr>pe_connection := None\<rparr> = ends s pipe_end"
    using a by (metis pipe_end.surjective pipe_end.update_convs(3))
  then show ?thesis by (simp add: upd_end_def)
qed

lemma pipe_end_disconnect_no_peer:
  "pe_connection (ends s pipe_end) = None \<Longrightarrow>
   pipe_end_disconnect pipe_end status s =
     (if use_server_io (ends s pipe_end) then disconnect_server_io pipe_end status s else Some s)"
  by (subst pipe_end_disconnect.simps) (simp add: upd_end_connection_None Let_def)

lemma disconnect_depth_no_peer:
  "pe_connection (ends s pipe_end) = None \<Longrightarrow> disconnect_depth pipe_end status s = 0"
  by (subst disconnect_depth.simps) (simp add: Let_def split: option.split)

lemma disconnect_depth_le: "disconnect_depth pipe_end status s \<le> 1"
  by (subst disconnect_depth.simps)
     (simp add: Let_def disconnect_depth_no_peer upd_end_def split: option.split)


text \<open>
  Claim C8.  \<open>pipe_end_disconnect\<close> is a total function of the pipe end, the status and
  the memory, and its self-recursion has depth at most one: it equals the run that clears
  the forward edge, tears down the end itself, and then, when there was a peer, clears
  the peer's edge and tears down the peer, with no further call.  The inner call is made
  on a memory where the peer's \<open>connection\<close> is null, so it does not recurse again.
\<close>

theorem pipe_end_disconnect_depth_one:
  "pipe_end_disconnect pipe_end status s =
     (let connection = pe_connection (ends s pipe_end);
          s1 = upd_end pipe_end (\<lambda>e. e\<lparr>pe_connection := None\<rparr>) s
      in do {
        s2 \<leftarrow> (if use_server_io (ends s1 pipe_end)
               then disconnect_server_io pipe_end status s1 else Some s1);
        case connection of
          None \<Rightarrow> Some s2
        | Some c \<Rightarrow>
            (let s3 = upd_end c (\<lambda>e. e\<lparr>pe_connection := None\<rparr>) s2
             in if use_server_io (ends s3 c) then disconnect_server_io c status s3 else Some s3) })
   \<and> disconnect_depth pipe_end status s \<le> 1"
proof
  have inner: "pipe_end_disconnect c status (upd_end c (\<lambda>e. e\<lparr>pe_connection := None\<rparr>) s2) =
     (let s3 = upd_end c (\<lambda>e. e\<lparr>pe_connection := None\<rparr>) s2
      in if use_server_io (ends s3 c) then disconnect_server_io c status s3 else Some s3)" for c s2
    by (simp add: pipe_end_disconnect_no_peer upd_end_def Let_def)
  show "pipe_end_disconnect pipe_end status s =
     (let connection = pe_connection (ends s pipe_end);
          s1 = upd_end pipe_end (\<lambda>e. e\<lparr>pe_connection := None\<rparr>) s
      in do {
        s2 \<leftarrow> (if use_server_io (ends s1 pipe_end)
               then disconnect_server_io pipe_end status s1 else Some s1);
        case connection of
          None \<Rightarrow> Some s2
        | Some c \<Rightarrow>
            (let s3 = upd_end c (\<lambda>e. e\<lparr>pe_connection := None\<rparr>) s2
             in if use_server_io (ends s3 c) then disconnect_server_io c status s3 else Some s3) })"
    by (subst pipe_end_disconnect.simps) (simp only: inner)
  show "disconnect_depth pipe_end status s \<le> 1"
    by (rule disconnect_depth_le)
qed

theorem pipe_end_disconnect_depth_one_witness:
  "(case pipe_end_disconnect 4 STATUS_PIPE_BROKEN connected_sys of
      None \<Rightarrow> False
    | Some s' \<Rightarrow> pe_connection (ends s' 2) = None \<and> pe_connection (ends s' 4) = None) \<and>
   disconnect_depth 4 STATUS_PIPE_BROKEN connected_sys \<le> 1"
  using pipe_end_disconnect_depth_one [of 4 STATUS_PIPE_BROKEN connected_sys]
  by (simp add: eval_nat_numeral connected_sys_def one_pipe_sys_def init_sys_def
      const_defs open_defs disconnect_defs upd_fd_def Let_def)


subsection \<open>Reading from a message queue\<close>

lemma length_unread_bytes:
  "message_ok s m \<Longrightarrow>
   length (unread_bytes s m) = unat (in_size (iosbs s (msg_iosb m)) - read_pos m)"
  by (auto simp: message_ok_def unread_bytes_def unat_sub split: option.splits)

lemma bytes_at_unread:
  "message_ok s m \<Longrightarrow>
   bytes_at (in_data (iosbs s (msg_iosb m))) (read_pos m) w = take (unat w) (unread_bytes s m)"
  by (simp add: bytes_at_def unread_bytes_def)

lemma keeps_refl [simp]: "keeps io s s"
  by (simp add: keeps_def)

lemma keeps_trans: "keeps io s s' \<Longrightarrow> keeps io s' s'' \<Longrightarrow> keeps io s s''"
  by (auto simp: keeps_def)

lemma keeps_upd_end [simp]: "keeps io s (upd_end a f s)"
  by (simp add: keeps_def upd_end_def)

lemma keeps_async_complete [simp]: "keeps io s (async_complete a st s)"
  by (auto simp: keeps_def async_complete_def log_event_def Let_def)

lemma keeps_release_async [simp]: "keeps io s (release_async a s)"
  by (simp add: keeps_def release_async_def log_event_def)

lemma keeps_wake_message: "msg_iosb m \<noteq> io \<Longrightarrow> keeps io s (snd (wake_message m s))"
proof -
  assume ne: "msg_iosb m \<noteq> io"
  let ?s2 = "upd_iosb (msg_iosb m) (\<lambda>io. io\<lparr>iosb_result := in_size io\<rparr>)
               (upd_iosb (msg_iosb m) (\<lambda>io. io\<lparr>iosb_status := STATUS_SUCCESS\<rparr>) s)"
  have a: "keeps io s ?s2" using ne by (simp add: keeps_def upd_iosb_def)
  show ?thesis
  proof (cases "msg_async m")
    case None
    with a show ?thesis by (simp add: wake_message_def Let_def)
  next
    case (Some x)
    have "keeps io ?s2 (release_async x (async_complete x
            (if iosb_result (iosbs ?s2 (msg_iosb m)) \<noteq> 0 then STATUS_ALERTED else STATUS_SUCCESS) ?s2))"
      by (rule keeps_trans [OF keeps_async_complete keeps_release_async])
    with a have "keeps io s (release_async x (async_complete x
            (if iosb_result (iosbs ?s2 (msg_iosb m)) \<noteq> 0 then STATUS_ALERTED else STATUS_SUCCESS) ?s2))"
      by (rule keeps_trans)
    then show ?thesis using Some by (simp add: wake_message_def Let_def)
  qed
qed

lemma keeps_message_ok: "keeps io s s' \<Longrightarrow> message_ok s' m = message_ok s m"
  by (auto simp: keeps_def message_ok_def split: option.splits)

lemma keeps_unread_bytes: "keeps io s s' \<Longrightarrow> unread_bytes s' m = unread_bytes s m"
  by (simp add: keeps_def unread_bytes_def)

lemma keeps_queue_bytes: "keeps io s s' \<Longrightarrow> queue_bytes s' q = queue_bytes s q"
  by (simp add: queue_bytes_def keeps_unread_bytes cong: map_cong)

lemma keeps_queue_after: "keeps io s s' \<Longrightarrow> queue_after k s' q = queue_after k s q"
  by (induction q arbitrary: k) (simp_all add: keeps_unread_bytes)

lemma unat_min_word: "unat (min (a::32 word) b) = min (unat a) (unat b)"
  by (simp add: min_def word_le_nat_alt)

lemma copy_step_spec:
  assumes ok: "message_ok s m" and ne: "msg_iosb m \<noteq> io"
    and le: "wp \<le> out_size (iosbs s io)"
  shows "\<exists>w s2. copy_step e io wp buf m ms s = (wp + w, buf @ take (unat w) (unread_bytes s m), s2) \<and>
           unat w = min (unat (out_size (iosbs s io)) - unat wp) (length (unread_bytes s m)) \<and>
           unat (wp + w) = unat wp + unat w \<and>
           keeps io s s2 \<and>
           pe_message_queue (ends s2 e) =
             (if length (unread_bytes s m) \<le> unat (out_size (iosbs s io)) - unat wp then ms
              else m\<lparr>read_pos := read_pos m + w\<rparr> # ms)"
proof -
  let ?n = "out_size (iosbs s io)"
  let ?mi = "iosbs s (msg_iosb m)"
  define w where "w = min (?n - wp) (in_size ?mi - read_pos m)"
  let ?m' = "m\<lparr>read_pos := read_pos m + w\<rparr>"
  let ?s1 = "upd_end e (\<lambda>x. x\<lparr>pe_message_queue := ?m' # ms\<rparr>) s"
  let ?s2 = "if read_pos ?m' = in_size (iosbs ?s1 (msg_iosb ?m'))
             then upd_end e (\<lambda>x. x\<lparr>pe_message_queue := ms\<rparr>) (snd (wake_message ?m' ?s1))
             else ?s1"
  have r: "length (unread_bytes s m) = unat (in_size ?mi - read_pos m)"
    using ok by (rule length_unread_bytes)
  have k: "unat (?n - wp) = unat ?n - unat wp"
    using le by (simp add: unat_sub)
  have uw: "unat w = min (unat ?n - unat wp) (length (unread_bytes s m))"
    by (simp add: w_def unat_min_word r k)
  have "unat wp + unat w \<le> unat ?n"
    using uw le by (simp add: word_le_nat_alt)
  then have sum: "unat (wp + w) = unat wp + unat w"
    by (metis le_unat_uoi unat_plus_simple word_le_nat_alt unat_add_lem order.strict_trans1 unsigned_less not_less)
  have buf: "(if w \<noteq> 0 then buf @ bytes_at (in_data ?mi) (read_pos m) w else buf)
               = buf @ take (unat w) (unread_bytes s m)"
    using bytes_at_unread [OF ok] by (cases "w = 0") simp_all
  have consumed: "(read_pos ?m' = in_size (iosbs ?s1 (msg_iosb ?m')))
                    = (length (unread_bytes s m) \<le> unat ?n - unat wp)"
  proof -
    have "(read_pos m + w = in_size ?mi) = (w = in_size ?mi - read_pos m)"
      by (metis add_diff_cancel_left' diff_add_cancel add.commute)
    also have "\<dots> = (unat w = unat (in_size ?mi - read_pos m))"
      by (simp add: word_unat_eq_iff)
    also have "\<dots> = (length (unread_bytes s m) \<le> unat ?n - unat wp)"
      using uw r by auto
    finally show ?thesis by (simp add: upd_end_def)
  qed
  have step: "copy_step e io wp buf m ms s = (wp + w, buf @ take (unat w) (unread_bytes s m), ?s2)"
    unfolding copy_step_def Let_def w_def [symmetric] buf ..
  have k1: "keeps io s ?s1" by simp
  have "keeps io ?s1 (upd_end e (\<lambda>x. x\<lparr>pe_message_queue := ms\<rparr>) (snd (wake_message ?m' ?s1)))"
    by (rule keeps_trans [OF keeps_wake_message keeps_upd_end]) (simp add: ne)
  then have "keeps io s (upd_end e (\<lambda>x. x\<lparr>pe_message_queue := ms\<rparr>) (snd (wake_message ?m' ?s1)))"
    by (rule keeps_trans [OF k1])
  then have k2: "keeps io s ?s2"
    using k1 by simp
  have q: "pe_message_queue (ends ?s2 e) =
             (if length (unread_bytes s m) \<le> unat ?n - unat wp then ms else ?m' # ms)"
    unfolding consumed by (simp add: upd_end_def)
  from step uw sum k2 q show ?thesis by blast
qed


lemma copy_messages_spec:
  "pe_message_queue (ends s e) = q \<Longrightarrow> q \<noteq> [] \<Longrightarrow> list_all (message_ok s) q \<Longrightarrow>
   io \<notin> msg_iosb ` set q \<Longrightarrow> iosb_status (iosbs s io) \<noteq> STATUS_PENDING \<Longrightarrow>
   wp \<le> out_size (iosbs s io) \<Longrightarrow>
   unat (out_size (iosbs s io)) - unat wp \<le> length (queue_bytes s q) \<Longrightarrow>
   \<exists>s'. copy_messages e io wp buf s
          = Some (buf @ take (unat (out_size (iosbs s io)) - unat wp) (queue_bytes s q), s') \<and>
        pe_message_queue (ends s' e) = queue_after (unat (out_size (iosbs s io)) - unat wp) s q \<and>
        keeps io s s'"
proof (induction q arbitrary: s wp buf)
  case Nil
  then show ?case by simp
next
  case (Cons m ms)
  let ?n = "out_size (iosbs s io)"
  let ?k = "unat ?n - unat wp"
  let ?u = "unread_bytes s m"
  have ok: "message_ok s m" and oks: "list_all (message_ok s) ms"
    using Cons.prems(3) by simp_all
  have ne: "msg_iosb m \<noteq> io" and nes: "io \<notin> msg_iosb ` set ms"
    using Cons.prems(4) by auto
  obtain w s2 where
    st: "copy_step e io wp buf m ms s = (wp + w, buf @ take (unat w) ?u, s2)"
    and uw: "unat w = min ?k (length ?u)"
    and sum: "unat (wp + w) = unat wp + unat w"
    and kp: "keeps io s s2"
    and q2: "pe_message_queue (ends s2 e) =
               (if length ?u \<le> ?k then ms else m\<lparr>read_pos := read_pos m + w\<rparr> # ms)"
    using copy_step_spec [OF ok ne Cons.prems(6), of e buf ms] by blast
  have io2: "iosbs s2 io = iosbs s io"
    using kp Cons.prems(5) by (simp add: keeps_def)
  have qb: "queue_bytes s (m # ms) = ?u @ queue_bytes s ms"
    by (simp add: queue_bytes_def)
  have eq: "copy_messages e io wp buf s =
              (if wp + w < ?n then copy_messages e io (wp + w) (buf @ take (unat w) ?u) s2
               else Some (buf @ take (unat w) ?u, s2))"
    by (subst copy_messages.simps) (simp add: Cons.prems(1) st io2)
  have cond: "(wp + w < ?n) = (length ?u < ?k)"
    using uw sum Cons.prems(6) by (auto simp: word_less_nat_alt word_le_nat_alt)
  show ?case
  proof (cases "length ?u < ?k")
    case True
    then have w: "unat w = length ?u" using uw by simp
    have q2': "pe_message_queue (ends s2 e) = ms" using q2 True by simp
    have "ms \<noteq> []"
      using True Cons.prems(7) by (auto simp: qb queue_bytes_def)
    moreover have "list_all (message_ok s2) ms"
      using oks kp by (simp add: keeps_message_ok list_all_iff)
    moreover have "iosb_status (iosbs s2 io) \<noteq> STATUS_PENDING"
      using Cons.prems(5) io2 by simp
    moreover have "wp + w \<le> out_size (iosbs s2 io)"
      using True w sum by (simp add: io2 word_le_nat_alt)
    moreover have "unat (out_size (iosbs s2 io)) - unat (wp + w) \<le> length (queue_bytes s2 ms)"
      using Cons.prems(7) w sum by (simp add: io2 qb keeps_queue_bytes [OF kp])
    ultimately obtain s' where
      r: "copy_messages e io (wp + w) (buf @ take (unat w) ?u) s2
            = Some ((buf @ take (unat w) ?u)
                     @ take (unat (out_size (iosbs s2 io)) - unat (wp + w)) (queue_bytes s2 ms), s')"
      and qa: "pe_message_queue (ends s' e)
                 = queue_after (unat (out_size (iosbs s2 io)) - unat (wp + w)) s2 ms"
      and kp2: "keeps io s2 s'"
      using Cons.IH [OF q2' _ _ nes, of "wp + w" "buf @ take (unat w) ?u"] by blast
    have k': "unat (out_size (iosbs s2 io)) - unat (wp + w) = ?k - length ?u"
      using w sum by (simp add: io2)
    have r': "copy_messages e io (wp + w) (buf @ take (unat w) ?u) s2
                = Some (buf @ take ?k (queue_bytes s (m # ms)), s')"
      unfolding r using True by (simp add: k' w qb keeps_queue_bytes [OF kp])
    have "copy_messages e io wp buf s = Some (buf @ take ?k (queue_bytes s (m # ms)), s')"
      using True by (simp only: eq cond r' if_True)
    moreover have "pe_message_queue (ends s' e) = queue_after ?k s (m # ms)"
      using True by (simp add: qa k' keeps_queue_after [OF kp])
    moreover have "keeps io s s'" using kp kp2 by (rule keeps_trans)
    ultimately show ?thesis by blast
  next
    case False
    then have w: "unat w = ?k" using uw by simp
    have ww: "w = word_of_nat ?k" unfolding w [symmetric] by simp
    have "copy_messages e io wp buf s = Some (buf @ take ?k (queue_bytes s (m # ms)), s2)"
      using False by (simp add: eq cond w qb)
    moreover have "pe_message_queue (ends s2 e) = queue_after ?k s (m # ms)"
      using False q2 ww by auto
    ultimately show ?thesis using kp by blast
  qed
qed


lemma read_avail_spec:
  "list_all (message_ok s) q \<Longrightarrow> unat avail + length (queue_bytes s q) < 2 ^ 32 \<Longrightarrow>
   unat (min out (read_avail out avail q s)) = min (unat out) (unat avail + length (queue_bytes s q))"
proof (induction q arbitrary: avail)
  case Nil
  then show ?case by (simp add: unat_min_word queue_bytes_def)
next
  case (Cons m ms)
  let ?r = "in_size (iosbs s (msg_iosb m)) - read_pos m"
  have ok: "message_ok s m" and oks: "list_all (message_ok s) ms" using Cons.prems(1) by simp_all
  have r: "length (unread_bytes s m) = unat ?r" using ok by (rule length_unread_bytes)
  have qb: "queue_bytes s (m # ms) = unread_bytes s m @ queue_bytes s ms"
    by (simp add: queue_bytes_def)
  have "unat avail + unat ?r < 2 ^ 32" using Cons.prems(2) by (simp add: qb r)
  then have sum: "unat (avail + ?r) = unat avail + unat ?r"
    using unat_add_lem [of avail ?r] by simp
  show ?case
  proof (cases "out \<le> avail + ?r")
    case True
    then have "unat out \<le> unat avail + unat ?r" by (simp add: word_le_nat_alt sum)
    then show ?thesis using True by (simp add: Let_def unat_min_word qb r sum)
  next
    case False
    have "unat (avail + ?r) + length (queue_bytes s ms) < 2 ^ 32"
      using Cons.prems(2) by (simp add: qb r sum)
    from Cons.IH [OF oks this] False show ?thesis
      by (simp add: Let_def qb r sum add.assoc)
  qed
qed

lemma unat_add_le: "unat (a + b) \<le> unat a + unat (b::32 word)"
  by (simp add: unat_word_ariths(1))

lemma read_avail_le:
  "list_all (message_ok s) q \<Longrightarrow>
   unat (min out (read_avail out avail q s)) \<le> unat avail + length (queue_bytes s q)"
proof (induction q arbitrary: avail)
  case Nil
  then show ?case by (simp add: unat_min_word queue_bytes_def)
next
  case (Cons m ms)
  let ?r = "in_size (iosbs s (msg_iosb m)) - read_pos m"
  have ok: "message_ok s m" and oks: "list_all (message_ok s) ms" using Cons.prems(1) by simp_all
  have r: "length (unread_bytes s m) = unat ?r" using ok by (rule length_unread_bytes)
  have qb: "queue_bytes s (m # ms) = unread_bytes s m @ queue_bytes s ms"
    by (simp add: queue_bytes_def)
  have sum: "unat (avail + ?r) \<le> unat avail + unat ?r" by (rule unat_add_le)
  show ?case
  proof (cases "out \<le> avail + ?r")
    case True
    then have "unat out \<le> unat (avail + ?r)" by (simp add: word_le_nat_alt)
    then show ?thesis using True sum by (simp add: Let_def unat_min_word qb r)
  next
    case False
    from Cons.IH [OF oks, of "avail + ?r"] False sum show ?thesis
      by (simp add: Let_def qb r)
  qed
qed

lemma other_iosbs:
  assumes "\<forall>i. i \<noteq> io \<longrightarrow> iosbs s1 i = iosbs s i" and "msg_iosb m \<noteq> io"
  shows "message_ok s1 m = message_ok s m" and "unread_bytes s1 m = unread_bytes s m"
  using assms by (auto simp: message_ok_def unread_bytes_def split: option.splits)

lemma other_iosbs_queue:
  assumes "\<forall>i. i \<noteq> io \<longrightarrow> iosbs s1 i = iosbs s i" and "io \<notin> msg_iosb ` set q"
  shows "list_all (message_ok s1) q = list_all (message_ok s) q"
    and "queue_bytes s1 q = queue_bytes s q"
    and "queue_after k s1 q = queue_after k s q"
proof -
  have a: "\<forall>m \<in> set q. message_ok s1 m = message_ok s m \<and> unread_bytes s1 m = unread_bytes s m"
  proof
    fix m assume "m \<in> set q"
    then have "msg_iosb m \<noteq> io" using assms(2) by auto
    then show "message_ok s1 m = message_ok s m \<and> unread_bytes s1 m = unread_bytes s m"
      using other_iosbs [OF assms(1)] by simp
  qed
  show "list_all (message_ok s1) q = list_all (message_ok s) q"
    using a by (simp add: list_all_iff)
  show "queue_bytes s1 q = queue_bytes s q"
    using a by (simp add: queue_bytes_def cong: map_cong)
  show "queue_after k s1 q = queue_after k s q"
    using a by (induction q arbitrary: k) simp_all
qed

lemma read_size_frame:
  "ends (read_size e io m ms s) = ends s"
  "host (read_size e io m ms s) = host s"
  "i \<noteq> io \<Longrightarrow> iosbs (read_size e io m ms s) i = iosbs s i"
  "iosb_status (iosbs (read_size e io m ms s) io) \<noteq> STATUS_PENDING"
  by (simp_all add: read_size_def upd_iosb_def Let_def)

lemma read_size_spec:
  assumes q: "pe_message_queue (ends s e) = m # ms"
    and ok: "list_all (message_ok s) (m # ms)"
    and ni: "io \<notin> msg_iosb ` set (m # ms)"
  shows "pe_flags (ends s e) AND NAMED_PIPE_MESSAGE_STREAM_READ \<noteq> 0 \<or>
         length (queue_bytes s (m # ms)) < 2 ^ 32 \<Longrightarrow>
         unat (out_size (iosbs (read_size e io m ms s) io)) = delivered e io s"
    and "iosb_status (iosbs (read_size e io m ms s) io) =
           (if pe_flags (ends s e) AND NAMED_PIPE_MESSAGE_STREAM_READ \<noteq> 0 \<and>
               unat (out_size (iosbs s io)) < length (unread_bytes s m)
            then STATUS_BUFFER_OVERFLOW else STATUS_SUCCESS)"
    and "unat (out_size (iosbs (read_size e io m ms s) io)) \<le> length (queue_bytes s (m # ms))"
proof -
  let ?req = "out_size (iosbs s io)"
  let ?mi = "iosbs s (msg_iosb m)"
  let ?r = "in_size ?mi - read_pos m"
  have okm: "message_ok s m" using ok by simp
  have ne: "msg_iosb m \<noteq> io" using ni by auto
  have r: "length (unread_bytes s m) = unat ?r" using okm by (rule length_unread_bytes)
  have le: "read_pos m \<le> in_size ?mi" using okm by (simp add: message_ok_def)
  have ur: "unat ?r = unat (in_size ?mi) - unat (read_pos m)" using le by (simp add: unat_sub)
  have le': "unat (read_pos m) \<le> unat (in_size ?mi)" using le by (simp add: word_le_nat_alt)
  have "unat (read_pos m) + unat (min ?req ?r) \<le> unat (in_size ?mi)"
    using ur le' by (simp add: unat_min_word)
  moreover have "unat (in_size ?mi) < 2 ^ 32" using unsigned_less [of "in_size ?mi"] by simp
  ultimately have "unat (read_pos m) + unat (min ?req ?r) < 2 ^ 32" by linarith
  then have sum: "unat (read_pos m + min ?req ?r) = unat (read_pos m) + unat (min ?req ?r)"
    using unat_add_lem [of "read_pos m" "min ?req ?r"] by simp
  have ovf: "(read_pos m + min ?req ?r < in_size ?mi) = (unat ?req < unat ?r)"
    using ur le' by (auto simp: word_less_nat_alt sum unat_min_word)
  have qb: "queue_bytes s (m # ms) = unread_bytes s m @ queue_bytes s ms"
    by (simp add: queue_bytes_def)
  show "unat (out_size (iosbs (read_size e io m ms s) io)) = delivered e io s"
    if f: "pe_flags (ends s e) AND NAMED_PIPE_MESSAGE_STREAM_READ \<noteq> 0 \<or>
           length (queue_bytes s (m # ms)) < 2 ^ 32"
  proof (cases "pe_flags (ends s e) AND NAMED_PIPE_MESSAGE_STREAM_READ \<noteq> 0")
    case True
    then show ?thesis
      by (simp add: read_size_def delivered_def q Let_def upd_iosb_def unat_min_word r)
  next
    case False
    with f have nw: "length (queue_bytes s (m # ms)) < 2 ^ 32" by simp
    have av: "unat (min ?req (read_avail ?req 0 (m # ms) s))
              = min (unat ?req) (length (queue_bytes s (m # ms)))"
      using read_avail_spec [OF ok, of 0 ?req] nw by simp
    show ?thesis
      using av False
      by (simp add: read_size_def delivered_def q Let_def upd_iosb_def unat_min_word r)
  qed
  show "iosb_status (iosbs (read_size e io m ms s) io) =
           (if pe_flags (ends s e) AND NAMED_PIPE_MESSAGE_STREAM_READ \<noteq> 0 \<and>
               unat (out_size (iosbs s io)) < length (unread_bytes s m)
            then STATUS_BUFFER_OVERFLOW else STATUS_SUCCESS)"
    using ne ovf by (simp add: read_size_def Let_def upd_iosb_def r)
  show "unat (out_size (iosbs (read_size e io m ms s) io)) \<le> length (queue_bytes s (m # ms))"
  proof (cases "pe_flags (ends s e) AND NAMED_PIPE_MESSAGE_STREAM_READ \<noteq> 0")
    case True
    then show ?thesis
      by (simp add: read_size_def Let_def upd_iosb_def unat_min_word r [symmetric] qb)
  next
    case False
    have "unat (min ?req (read_avail ?req 0 (m # ms) s)) \<le> length (queue_bytes s (m # ms))"
      using read_avail_le [OF ok, of ?req 0] by simp
    then show ?thesis
      using False by (simp add: read_size_def Let_def upd_iosb_def)
  qed
qed

lemma delivered_le:
  "pe_message_queue (ends s e) = m # ms \<Longrightarrow> delivered e io s \<le> length (queue_bytes s (m # ms))"
  by (auto simp: delivered_def queue_bytes_def min_def)

lemma message_queue_read_cases:
  assumes q: "pe_message_queue (ends s e) = m # ms"
    and ok: "list_all (message_ok s) (m # ms)"
    and ni: "io \<notin> msg_iosb ` set (m # ms)"
  shows "\<exists>s'. message_queue_read e io s = Some s' \<and>
          ((\<not> fst (host_ok s) \<and> iosb_status (iosbs s' io) = STATUS_NO_MEMORY \<and>
            out_size (iosbs s' io) = 0 \<and> ends s' = ends s \<and> asyncs s' = asyncs s \<and>
            (\<forall>i. i \<noteq> io \<longrightarrow> iosbs s' i = iosbs s i)) \<or>
           (out_size (iosbs s' io) = out_size (iosbs (read_size e io m ms s) io) \<and>
            iosb_result (iosbs s' io) = out_size (iosbs s' io) \<and>
            iosb_status (iosbs s' io) =
              (if pe_flags (ends s e) AND NAMED_PIPE_MESSAGE_STREAM_READ \<noteq> 0 \<and>
                  unat (out_size (iosbs s io)) < length (unread_bytes s m)
               then STATUS_BUFFER_OVERFLOW else STATUS_SUCCESS) \<and>
            (out_size (iosbs s' io) \<noteq> 0 \<longrightarrow>
               out_data (iosbs s' io)
                 = Some (take (unat (out_size (iosbs s' io))) (queue_bytes s (m # ms)))) \<and>
            pe_message_queue (ends s' e)
              = queue_after (unat (out_size (iosbs s' io))) s (m # ms)))"
proof -
  define s1 where "s1 = read_size e io m ms s"
  define n where "n = unat (out_size (iosbs s1 io))"
  define st where "st = (if pe_flags (ends s e) AND NAMED_PIPE_MESSAGE_STREAM_READ \<noteq> 0 \<and>
                 unat (out_size (iosbs s io)) < length (unread_bytes s m)
              then STATUS_BUFFER_OVERFLOW else STATUS_SUCCESS)"
  have okm: "message_ok s m" using ok by simp
  have ne: "msg_iosb m \<noteq> io" using ni by auto
  have sz: "unat (out_size (iosbs s1 io)) = n"
    unfolding n_def ..
  have sts: "iosb_status (iosbs s1 io) = st"
    unfolding s1_def st_def by (rule read_size_spec(2) [OF q ok ni])
  have np: "iosb_status (iosbs s1 io) \<noteq> STATUS_PENDING"
    unfolding s1_def by (rule read_size_frame(4))
  have oth: "\<forall>i. i \<noteq> io \<longrightarrow> iosbs s1 i = iosbs s i"
    unfolding s1_def by (simp add: read_size_frame)
  have e1: "ends s1 = ends s" unfolding s1_def by (rule read_size_frame(1))
  have h1: "host s1 = host s" unfolding s1_def by (rule read_size_frame(2))
  have nle: "n \<le> length (queue_bytes s (m # ms))"
    unfolding n_def s1_def by (rule read_size_spec(3) [OF q ok ni])
  have nn: "(out_size (iosbs s1 io) = 0) = (n = 0)"
    unfolding n_def by (simp add: unat_eq_0)
  have mqr: "message_queue_read e io s =
      (if read_pos m = 0 \<and> in_size (iosbs s1 (msg_iosb m)) = out_size (iosbs s1 io)
       then
         (let data = in_data (iosbs s1 (msg_iosb m));
              s2 = upd_iosb io (\<lambda>io. io\<lparr>out_data := data\<rparr>) s1;
              s3 = upd_iosb (msg_iosb m) (\<lambda>io. io\<lparr>in_data := None\<rparr>) s2;
              s4 = snd (wake_message m s3);
              s5 = upd_end e (\<lambda>e. e\<lparr>pe_message_queue := ms\<rparr>) s4
          in Some (upd_iosb io (\<lambda>io. io\<lparr>iosb_result := out_size io\<rparr>) s5))
       else
         (if out_size (iosbs s1 io) \<noteq> 0
          then
            (case host_ok s1 of
               (False, s2) \<Rightarrow>
                 Some (upd_iosb io
                         (\<lambda>io. io\<lparr>out_data := None, out_size := 0,
                                   iosb_status := STATUS_NO_MEMORY\<rparr>) s2)
             | (True, s2) \<Rightarrow>
                 do {
                   (buf, s3) \<leftarrow> copy_messages e io 0 [] s2;
                   let s4 = upd_iosb io (\<lambda>io. io\<lparr>out_data := Some buf\<rparr>) s3;
                   Some (upd_iosb io (\<lambda>io. io\<lparr>iosb_result := out_size io\<rparr>) s4)
                 })
          else
            do {
              (buf, s3) \<leftarrow> copy_messages e io 0 [] s1;
              Some (upd_iosb io (\<lambda>io. io\<lparr>iosb_result := out_size io\<rparr>) s3)
            }))"
    unfolding message_queue_read_def q s1_def by (simp add: Let_def)
  have cp: "\<exists>s3. copy_messages e io 0 [] s2 = Some (take n (queue_bytes s (m # ms)), s3) \<and>
              pe_message_queue (ends s3 e) = queue_after n s (m # ms) \<and> keeps io s2 s3"
    if i2: "iosbs s2 = iosbs s1" and e2: "ends s2 = ends s1" for s2
  proof -
    have oth2: "\<forall>i. i \<noteq> io \<longrightarrow> iosbs s2 i = iosbs s i" using oth i2 by simp
    have a: "pe_message_queue (ends s2 e) = m # ms" using q e1 e2 by simp
    have b: "list_all (message_ok s2) (m # ms)"
      using ok other_iosbs_queue(1) [OF oth2 ni] by simp
    have c: "queue_bytes s2 (m # ms) = queue_bytes s (m # ms)"
      by (rule other_iosbs_queue(2) [OF oth2 ni])
    have d: "queue_after n s2 (m # ms) = queue_after n s (m # ms)"
      by (rule other_iosbs_queue(3) [OF oth2 ni])
    have f: "unat (out_size (iosbs s2 io)) = n" using sz i2 by simp
    have g: "iosb_status (iosbs s2 io) \<noteq> STATUS_PENDING" using np i2 by simp
    have h: "unat (out_size (iosbs s2 io)) - unat (0::32 word) \<le> length (queue_bytes s2 (m # ms))"
      using nle by (simp add: f c)
    from copy_messages_spec [OF a _ b ni g _ h, of "[]"]
    show ?thesis by (simp add: f c d del: queue_after.simps)
  qed
  show ?thesis
  proof (cases "read_pos m = 0 \<and> in_size (iosbs s1 (msg_iosb m)) = out_size (iosbs s1 io)")
    case True
    define s2 where "s2 = upd_iosb io (\<lambda>io. io\<lparr>out_data := in_data (iosbs s1 (msg_iosb m))\<rparr>) s1"
    define s3 where "s3 = upd_iosb (msg_iosb m) (\<lambda>io. io\<lparr>in_data := None\<rparr>) s2"
    define s4 where "s4 = snd (wake_message m s3)"
    define s5 where "s5 = upd_end e (\<lambda>e. e\<lparr>pe_message_queue := ms\<rparr>) s4"
    define s' where "s' = upd_iosb io (\<lambda>io. io\<lparr>iosb_result := out_size io\<rparr>) s5"
    have r: "message_queue_read e io s = Some s'"
      unfolding mqr s'_def s5_def s4_def s3_def s2_def using True by (simp add: Let_def)
    have i3: "iosbs s3 io = (iosbs s1 io)\<lparr>out_data := in_data (iosbs s (msg_iosb m))\<rparr>"
      unfolding s3_def s2_def using ne oth by (simp add: upd_iosb_def)
    have "keeps io s3 s4" unfolding s4_def by (rule keeps_wake_message [OF ne])
    moreover have "iosb_status (iosbs s3 io) \<noteq> STATUS_PENDING" using np by (simp add: i3)
    ultimately have i4: "iosbs s4 io = iosbs s3 io" by (simp add: keeps_def)
    have i': "iosbs s' io = (iosbs s3 io)\<lparr>iosb_result := out_size (iosbs s3 io)\<rparr>"
      unfolding s'_def s5_def by (simp add: upd_iosb_def upd_end_def i4)
    have e': "pe_message_queue (ends s' e) = ms"
      unfolding s'_def s5_def by (simp add: upd_iosb_def upd_end_def)
    obtain d where d: "in_data (iosbs s (msg_iosb m)) = Some d"
      and ld: "length d = unat (in_size (iosbs s (msg_iosb m)))"
      using okm by (auto simp: message_ok_def split: option.splits)
    have u: "unread_bytes s m = d" using True d by (simp add: unread_bytes_def)
    have ln: "length d = n" using True ld sz oth ne by simp
    have qa: "queue_after n s (m # ms) = ms" by (simp add: u ln)
    have tk: "take n (queue_bytes s (m # ms)) = d" by (simp add: queue_bytes_def u ln)
    show ?thesis
      unfolding s1_def [symmetric] st_def [symmetric]
      using r sz sts by (intro exI [of _ s']) (simp add: i' i3 e' qa tk d nn del: queue_after.simps)
  next
    case False
    show ?thesis
    proof (cases "out_size (iosbs s1 io) = 0")
      case True
      then have n0: "n = 0" using sz by simp
      obtain s3 where c: "copy_messages e io 0 [] s1 = Some (take n (queue_bytes s (m # ms)), s3)"
        and qa: "pe_message_queue (ends s3 e) = queue_after n s (m # ms)"
        and kp: "keeps io s1 s3"
        using cp [of s1] by auto
      define s' where "s' = upd_iosb io (\<lambda>io. io\<lparr>iosb_result := out_size io\<rparr>) s3"
      have r: "message_queue_read e io s = Some s'"
        unfolding mqr s'_def using False True c by auto
      have i3: "iosbs s3 io = iosbs s1 io" using kp np by (simp add: keeps_def)
      show ?thesis
        unfolding s1_def [symmetric] st_def [symmetric]
        using r sz sts qa n0
        by (intro exI [of _ s']) (simp add: s'_def upd_iosb_def i3 nn del: queue_after.simps)
    next
      case nz: False
      define b where "b = fst (host_ok s1)"
      define s2 where "s2 = snd (host_ok s1)"
      have ho: "host_ok s1 = (b, s2)" by (simp add: b_def s2_def)
      have i2: "iosbs s2 = iosbs s1" and e2: "ends s2 = ends s1"
        and a2: "asyncs s2 = asyncs s1"
        by (simp_all add: s2_def host_ok_def split: list.splits)
      have b: "b = fst (host_ok s)"
        using h1 by (simp add: b_def host_ok_def split: list.splits)
      show ?thesis
      proof (cases b)
        case True
        obtain s3 where c: "copy_messages e io 0 [] s2 = Some (take n (queue_bytes s (m # ms)), s3)"
          and qa: "pe_message_queue (ends s3 e) = queue_after n s (m # ms)"
          and kp: "keeps io s2 s3"
          using cp [OF i2 e2] by auto
        define s' where "s' = upd_iosb io (\<lambda>io. io\<lparr>iosb_result := out_size io\<rparr>)
                               (upd_iosb io (\<lambda>io. io\<lparr>out_data := Some (take n (queue_bytes s (m # ms)))\<rparr>) s3)"
        have r: "message_queue_read e io s = Some s'"
          unfolding mqr s'_def using False nz c ho True by (auto simp: Let_def)
        have i3: "iosbs s3 io = iosbs s1 io" using kp np i2 by (simp add: keeps_def)
        show ?thesis
          unfolding s1_def [symmetric] st_def [symmetric]
          using r sz sts qa
          by (intro exI [of _ s']) (simp add: s'_def upd_iosb_def i3 nn del: queue_after.simps)
      next
        case nomem: False
        define s' where "s' = upd_iosb io (\<lambda>io. io\<lparr>out_data := None, out_size := 0,
                                  iosb_status := STATUS_NO_MEMORY\<rparr>) s2"
        have r: "message_queue_read e io s = Some s'"
          unfolding mqr s'_def using False nz ho nomem by (auto simp: Let_def)
        have a1: "asyncs s1 = asyncs s"
          unfolding s1_def by (simp add: read_size_def upd_iosb_def Let_def)
        show ?thesis
          using r nomem b oth
          by (intro exI [of _ s']) (simp add: s'_def upd_iosb_def e1 e2 i2 a1 a2)
      qed
    qed
  qed
qed

lemma message_queue_read_spec:
  assumes q: "pe_message_queue (ends s e) = m # ms"
    and ok: "list_all (message_ok s) (m # ms)"
    and ni: "io \<notin> msg_iosb ` set (m # ms)"
    and mem: "fst (host_ok s)"
  shows "\<exists>s'. message_queue_read e io s = Some s' \<and>
           out_size (iosbs s' io) = out_size (iosbs (read_size e io m ms s) io) \<and>
           iosb_result (iosbs s' io) = out_size (iosbs s' io) \<and>
           iosb_status (iosbs s' io) =
             (if pe_flags (ends s e) AND NAMED_PIPE_MESSAGE_STREAM_READ \<noteq> 0 \<and>
                 unat (out_size (iosbs s io)) < length (unread_bytes s m)
              then STATUS_BUFFER_OVERFLOW else STATUS_SUCCESS) \<and>
           (out_size (iosbs s' io) \<noteq> 0 \<longrightarrow>
              out_data (iosbs s' io)
                = Some (take (unat (out_size (iosbs s' io))) (queue_bytes s (m # ms)))) \<and>
           pe_message_queue (ends s' e)
             = queue_after (unat (out_size (iosbs s' io))) s (m # ms)"
  using message_queue_read_cases [OF q ok ni] mem by blast

lemma long_data_length: "length long_data = 2147483656"
  by (simp add: long_data_def)

lemma long_sys_facts:
  "pe_message_queue (ends long_sys 4) = [long_a, long_b]"
  "pe_flags (ends long_sys 4) = 1"
  "out_size (iosbs long_sys 8) = 0xFFFFFFFF"
  "in_size (iosbs long_sys 6) = 0x80000008" "in_size (iosbs long_sys 7) = 0x80000008"
  "in_data (iosbs long_sys 6) = Some long_data" "in_data (iosbs long_sys 7) = Some long_data"
  "msg_iosb long_a = 6" "msg_iosb long_b = 7"
  "read_pos long_a = 0" "read_pos long_b = 0"
  "fst (host_ok long_sys)"
  by (simp_all add: long_sys_def long_a_def long_b_def queued_sys_def connected_sys_def
        one_pipe_sys_def init_sys_def upd_iosb_def upd_end_def host_ok_def)

lemma long_sys_ok:
  "message_ok long_sys long_a" "message_ok long_sys long_b"
  "unread_bytes long_sys long_a = long_data" "unread_bytes long_sys long_b = long_data"
  by (simp_all add: message_ok_def unread_bytes_def long_sys_facts long_data_length)



lemmas queued_defs =
  queued_sys_def message_abc_def message_defgh_def connected_sys_def one_pipe_sys_def
  init_sys_def



subsection \<open>What the queue operations leave as it is\<close>

lemma only_queues_closed: "queue_closed only_queues"
  unfolding queue_closed_def only_queues_def
  by (auto simp: async_complete_def log_event_def upd_end_def upd_iosb_def host_ok_def Let_def
        nth_list_update split: list.splits)

lemma only_queues_end:
  "only_queues s s' \<Longrightarrow>
   pe_connection (ends s' x) = pe_connection (ends s x) \<and>
   pe_read_q (ends s' x) = pe_read_q (ends s x) \<and>
   pe_write_q (ends s' x) = pe_write_q (ends s x) \<and>
   pe_flags (ends s' x) = pe_flags (ends s x) \<and>
   pe_fd (ends s' x) = pe_fd (ends s x) \<and>
   pe_buffer_size (ends s' x) = pe_buffer_size (ends s x)"
proof -
  assume "only_queues s s'"
  then have e: "(ends s' x)\<lparr>pe_message_queue := []\<rparr> = (ends s x)\<lparr>pe_message_queue := []\<rparr>"
    by (simp add: only_queues_def)
  have "pe_connection ((ends s' x)\<lparr>pe_message_queue := []\<rparr>) = pe_connection ((ends s x)\<lparr>pe_message_queue := []\<rparr>)"
    "pe_read_q ((ends s' x)\<lparr>pe_message_queue := []\<rparr>) = pe_read_q ((ends s x)\<lparr>pe_message_queue := []\<rparr>)"
    "pe_write_q ((ends s' x)\<lparr>pe_message_queue := []\<rparr>) = pe_write_q ((ends s x)\<lparr>pe_message_queue := []\<rparr>)"
    "pe_flags ((ends s' x)\<lparr>pe_message_queue := []\<rparr>) = pe_flags ((ends s x)\<lparr>pe_message_queue := []\<rparr>)"
    "pe_fd ((ends s' x)\<lparr>pe_message_queue := []\<rparr>) = pe_fd ((ends s x)\<lparr>pe_message_queue := []\<rparr>)"
    "pe_buffer_size ((ends s' x)\<lparr>pe_message_queue := []\<rparr>) = pe_buffer_size ((ends s x)\<lparr>pe_message_queue := []\<rparr>)"
    unfolding e by simp_all
  then show ?thesis by simp
qed


subsection \<open>Reading from an end that has lost its peer\<close>

declare ends_log_event [simp] ends_release_async [simp]

lemma ends_complete_all [simp]: "ends (complete_all q st s) = ends s"
  by (induction q arbitrary: s) simp_all

lemma ends_fd_async_wake_up [simp]: "ends (fd_async_wake_up fd st s) = ends s"
  by (simp add: fd_async_wake_up_def)

lemma terminate_all_settled:
  "\<forall>a \<in> set q. \<not> is_pending s a \<Longrightarrow> terminate_all q st s = Some (complete_all q st s)"
proof (induction q arbitrary: s)
  case Nil
  then show ?case by simp
next
  case (Cons a q)
  have 1: "async_terminate a st s = Some (async_complete a st s)"
    using Cons.prems by (simp add: async_terminate_def)
  have "\<forall>x \<in> set q. \<not> is_pending (async_complete a st s) x"
    using Cons.prems settles_not_pending [OF settles_async_complete] by simp
  from Cons.IH [OF this] 1 show ?case by simp
qed

lemma async_terminate_inert:
  assumes "is_pending s a \<longrightarrow>
             (\<exists>w. a_queue (asyncs s ! a) = Write_q_of w \<and> pe_connection (ends s w) = None)"
  shows "async_terminate a st s = Some (async_complete a st s)"
proof (cases "is_pending s a")
  case False
  then show ?thesis by (simp add: async_terminate_def)
next
  case True
  then obtain w where w: "a_queue (asyncs s ! a) = Write_q_of w"
    and c: "pe_connection (ends s w) = None"
    using assms by blast
  have lt: "a < length (asyncs s)" using True by (simp add: is_pending_def)
  have "a_queue (asyncs (async_complete a st s) ! a) = Write_q_of w"
    using w lt by (simp add: async_complete_def log_event_def Let_def)
  moreover have "reselect_write_queue w (async_complete a st s) = Some (async_complete a st s)"
    by (subst reselect_write_queue.simps) (simp add: c)
  ultimately show ?thesis
    using True
    by (simp add: async_terminate_def async_reselect_def pipe_end_reselect_async_def)
qed

lemma same_data_refl [simp]: "same_data s s"
  by (simp add: same_data_def)

lemma same_data_trans: "same_data s s' \<Longrightarrow> same_data s' s'' \<Longrightarrow> same_data s s''"
  by (simp add: same_data_def)

lemma same_data_async_complete [simp]: "same_data s (async_complete a st s)"
  by (simp add: same_data_def async_complete_def log_event_def Let_def)

lemma same_data_release_async [simp]: "same_data s (release_async a s)"
  by (simp add: same_data_def release_async_def log_event_def)

lemma same_data_upd_end [simp]: "same_data s (upd_end a f s)"
  by (simp add: same_data_def upd_end_def)

lemma same_data_complete_all [simp]: "same_data s (complete_all q st s)"
proof (induction q arbitrary: s)
  case Nil
  show ?case by simp
next
  case (Cons a q)
  show ?case using same_data_trans [OF same_data_async_complete Cons] by simp
qed

lemma same_data_fd_async_wake_up [simp]: "same_data s (fd_async_wake_up fd st s)"
proof -
  have "same_data s (log_event (Ev_fd_async_wake_up fd st) s)"
    by (simp add: same_data_def log_event_def)
  then show ?thesis
    unfolding fd_async_wake_up_def by (rule same_data_trans) simp
qed

lemma a_queue_async_complete [simp]:
  "a_queue (asyncs (async_complete a st s) ! i) = a_queue (asyncs s ! i)"
  by (cases "i = a") (simp_all add: async_complete_def log_event_def Let_def)

lemma asyncs_release_async [simp]: "asyncs (release_async a s) = asyncs s"
  by (simp add: release_async_def log_event_def)

lemma is_pending_release_async [simp]: "is_pending (release_async a s) = is_pending s"
  by (simp add: is_pending_def fun_eq_iff)

lemma is_pending_upd_end [simp]: "is_pending (upd_end a f s) = is_pending s"
  by (simp add: is_pending_def fun_eq_iff upd_end_def)

lemma asyncs_upd_end [simp]: "asyncs (upd_end a f s) = asyncs s"
  by (simp add: upd_end_def)

lemma settles_complete_all [simp]: "settles s (complete_all q st s)"
proof (induction q arbitrary: s)
  case Nil
  show ?case by simp
next
  case (Cons a q)
  show ?case using settles_trans [OF settles_async_complete Cons] by simp
qed

lemma disconnect_messages_broken:
  assumes "writers_gone s e"
  shows "\<exists>s'. disconnect_messages e STATUS_PIPE_BROKEN k s = Some s' \<and>
           ends s' = (ends s)(e := (ends s e)\<lparr>pe_message_queue :=
              take k (pe_message_queue (ends s e)) @
              filter (\<lambda>m. msg_async m = None) (drop k (pe_message_queue (ends s e)))\<rparr>) \<and>
           settles s s' \<and> same_data s s'"
  using assms
proof (induction "length (pe_message_queue (ends s e)) - k" arbitrary: s k rule: less_induct)
  case less
  define q where "q = pe_message_queue (ends s e)"
  show ?case
  proof (cases "k < length q")
    case False
    then have "disconnect_messages e STATUS_PIPE_BROKEN k s = Some s"
      by (subst disconnect_messages.simps) (simp add: q_def)
    moreover have "(ends s)(e := (ends s e)\<lparr>pe_message_queue := take k q @
              filter (\<lambda>m. msg_async m = None) (drop k q)\<rparr>) = ends s"
      using False by (simp add: q_def)
    ultimately show ?thesis by (simp add: q_def [symmetric])
  next
    case True
    note dq = Cons_nth_drop_Suc [OF True, symmetric]
    note tq = take_Suc_conv_app_nth [OF True]
    show ?thesis
    proof (cases "msg_async (q ! k)")
      case None
      have r: "disconnect_messages e STATUS_PIPE_BROKEN k s
                 = disconnect_messages e STATUS_PIPE_BROKEN (Suc k) s"
        using True None
        by (subst disconnect_messages.simps) (simp add: q_def [symmetric] Let_def)
      have "length (pe_message_queue (ends s e)) - Suc k < length (pe_message_queue (ends s e)) - k"
        using True by (simp add: q_def)
      from less.hyps [OF this less.prems]
      obtain s' where s': "disconnect_messages e STATUS_PIPE_BROKEN (Suc k) s = Some s'"
        and e': "ends s' = (ends s)(e := (ends s e)\<lparr>pe_message_queue := take (Suc k) q @
              filter (\<lambda>m. msg_async m = None) (drop (Suc k) q)\<rparr>)"
        and st: "settles s s'" "same_data s s'"
        unfolding q_def by blast
      have "take (Suc k) q @ filter (\<lambda>m. msg_async m = None) (drop (Suc k) q)
              = take k q @ filter (\<lambda>m. msg_async m = None) (drop k q)"
        using None by (simp add: tq dq)
      then show ?thesis using r s' e' st by (simp add: q_def [symmetric])
    next
      case (Some a)
      define s1 where "s1 = upd_end e
                          (\<lambda>x. x\<lparr>pe_message_queue := take k q @ drop (Suc k) q\<rparr>) s"
      define s3 where "s3 = release_async a (async_complete a STATUS_PIPE_BROKEN s1)"
      have mem: "q ! k \<in> set (pe_message_queue (ends s e))"
        using True by (simp add: q_def)
      have "is_pending s1 a \<longrightarrow>
             (\<exists>w. a_queue (asyncs s1 ! a) = Write_q_of w \<and> pe_connection (ends s1 w) = None)"
      proof
        assume "is_pending s1 a"
        then have "is_pending s a" by (simp add: s1_def)
        then obtain w where "a_queue (asyncs s ! a) = Write_q_of w"
          and "pe_connection (ends s w) = None"
          using less.prems mem Some by (auto simp: writers_gone_def)
        then show "\<exists>w. a_queue (asyncs s1 ! a) = Write_q_of w \<and> pe_connection (ends s1 w) = None"
          by (auto simp: s1_def upd_end_def)
      qed
      then have t: "async_terminate a STATUS_PIPE_BROKEN s1
                      = Some (async_complete a STATUS_PIPE_BROKEN s1)"
        by (rule async_terminate_inert)
      have e3: "ends s3 = ends s1" by (simp add: s3_def)
      have nip: "next_in_place e k s1 s3" by (simp add: next_in_place_def e3)
      have r: "disconnect_messages e STATUS_PIPE_BROKEN k s
                 = disconnect_messages e STATUS_PIPE_BROKEN k s3"
        using True Some t nip
        by (subst disconnect_messages.simps)
           (simp add: q_def [symmetric] Let_def s1_def [symmetric] s3_def [symmetric])
      have q3: "pe_message_queue (ends s3 e) = take k q @ drop (Suc k) q"
        by (simp add: e3 s1_def upd_end_def)
      have st13: "settles s s3"
        unfolding s3_def s1_def
        by (rule settles_trans [OF settles_upd_end
              settles_trans [OF settles_async_complete settles_release_async]])
      have sd13: "same_data s s3"
        unfolding s3_def s1_def
        by (rule same_data_trans [OF same_data_upd_end
              same_data_trans [OF same_data_async_complete same_data_release_async]])
      have wg: "writers_gone s3 e"
        unfolding writers_gone_def
      proof (intro ballI allI impI)
        fix m x
        assume m: "m \<in> set (pe_message_queue (ends s3 e))" and x: "msg_async m = Some x"
          and p: "is_pending s3 x"
        have "m \<in> set q" using m unfolding q3 by (auto dest: in_set_takeD in_set_dropD)
        moreover have "is_pending s x" using p settles_not_pending [OF st13] by blast
        ultimately obtain w where "a_queue (asyncs s ! x) = Write_q_of w"
          and "pe_connection (ends s w) = None"
          using less.prems x by (auto simp: writers_gone_def q_def)
        then show "\<exists>w. a_queue (asyncs s3 ! x) = Write_q_of w \<and> pe_connection (ends s3 w) = None"
          by (auto simp: s3_def s1_def upd_end_def)
      qed
      have "length (pe_message_queue (ends s3 e)) - k < length (pe_message_queue (ends s e)) - k"
        using True by (simp add: q3 q_def [symmetric])
      from less.hyps [OF this wg]
      obtain s' where s': "disconnect_messages e STATUS_PIPE_BROKEN k s3 = Some s'"
        and e': "ends s' = (ends s3)(e := (ends s3 e)\<lparr>pe_message_queue :=
              take k (pe_message_queue (ends s3 e)) @
              filter (\<lambda>m. msg_async m = None) (drop k (pe_message_queue (ends s3 e)))\<rparr>)"
        and st: "settles s3 s'" "same_data s3 s'"
        by blast
      have a: "take k (take k q @ drop (Suc k) q) = take k q"
        using True by simp
      have b: "drop k (take k q @ drop (Suc k) q) = drop (Suc k) q"
        using True by simp
      have c: "filter (\<lambda>m. msg_async m = None) (drop k q)
                 = filter (\<lambda>m. msg_async m = None) (drop (Suc k) q)"
        using Some by (simp add: dq)
      have "ends s' = (ends s)(e := (ends s e)\<lparr>pe_message_queue := take k q @
              filter (\<lambda>m. msg_async m = None) (drop k q)\<rparr>)"
        unfolding e' q3 a b c by (simp add: e3 s1_def upd_end_def)
      then show ?thesis
        using r s' settles_trans [OF st13 st(1)] same_data_trans [OF sd13 st(2)]
        by (simp add: q_def [symmetric])
    qed
  qed
qed

lemma settles_log_event [simp]: "settles s (log_event ev s)"
  by (simp add: settles_def log_event_def)

lemma settles_fd_async_wake_up [simp]: "settles s (fd_async_wake_up fd st s)"
  unfolding fd_async_wake_up_def
  by (rule settles_trans [OF settles_log_event settles_complete_all])

lemma a_queue_complete_all [simp]:
  "a_queue (asyncs (complete_all q st s) ! i) = a_queue (asyncs s ! i)"
  by (induction q arbitrary: s) simp_all

lemma a_queue_fd_async_wake_up [simp]:
  "a_queue (asyncs (fd_async_wake_up fd st s) ! i) = a_queue (asyncs s ! i)"
  by (simp add: fd_async_wake_up_def log_event_def)

lemma writers_gone_settles:
  assumes "writers_gone s e" and "settles s s'" and "ends s' = ends s"
    and "\<And>i. a_queue (asyncs s' ! i) = a_queue (asyncs s ! i)"
  shows "writers_gone s' e"
  unfolding writers_gone_def
proof (intro ballI allI impI)
  fix m a
  assume m: "m \<in> set (pe_message_queue (ends s' e))" and a: "msg_async m = Some a"
    and p: "is_pending s' a"
  have "is_pending s a" using p settles_not_pending [OF assms(2)] by blast
  then obtain w where "a_queue (asyncs s ! a) = Write_q_of w" and "pe_connection (ends s w) = None"
    using assms(1) m a by (auto simp: writers_gone_def assms(3))
  then show "\<exists>w. a_queue (asyncs s' ! a) = Write_q_of w \<and> pe_connection (ends s' w) = None"
    by (auto simp: assms(3,4))
qed

lemma no_pending_settles:
  "find_pending_async q s = None \<Longrightarrow> settles s s' \<Longrightarrow> find_pending_async q s' = None"
  by (auto simp: find_pending_async_def find_None_iff dest: settles_not_pending
           split: option.splits)

lemma nth_update_self:
  "xs[a := f (xs ! a)] ! x = (if x = a \<and> a < length xs then f (xs ! a) else xs ! x)"
  by (cases "x = a"; cases "a < length xs") (simp_all add: list_update_beyond)

lemma is_pending_set_async_queue [simp]:
  "is_pending (set_async_queue a qr s) = is_pending s"
  by (auto simp: is_pending_def set_async_queue_def fun_eq_iff nth_update_self)

lemma async_get_iosb_set_async_queue [simp]:
  "async_get_iosb x (set_async_queue a qr s) = async_get_iosb x s"
  by (simp add: async_get_iosb_def set_async_queue_def nth_update_self)

lemma read_avail_cong:
  "iosbs s' = iosbs s \<Longrightarrow> read_avail out av q s' = read_avail out av q s"
  by (induction q arbitrary: av) (simp_all add: Let_def)

lemma read_size_cong:
  "iosbs s' = iosbs s \<Longrightarrow> pe_flags (ends s' e) = pe_flags (ends s e) \<Longrightarrow>
   iosbs (read_size e io m ms s') = iosbs (read_size e io m ms s)"
  by (simp add: read_size_def Let_def upd_iosb_def read_avail_cong [of s' s])

lemma is_pending_fun:
  "is_pending s = (\<lambda>a. a < length (asyncs s) \<and> a_status (asyncs s ! a) = STATUS_PENDING)"
  by (simp add: is_pending_def fun_eq_iff)

lemma pipe_end_read_alloc:
  assumes lt: "async < length (asyncs s)" and u: "use_server_io (ends s e)"
    and ne: "pe_message_queue (ends s e) \<noteq> []"
  shows "(\<exists>s1. pipe_end_read e async s = Some (0, s1) \<and> cur_error s1 = STATUS_NO_MEMORY \<and>
               False \<in> set (host s) \<and>
               iosbs s1 = iosbs s \<and> asyncs s1 = asyncs s \<and>
               pe_message_queue (ends s1 e) = pe_message_queue (ends s e) \<and>
               pe_connection (ends s1 e) = pe_connection (ends s e) \<and>
               find_pending_async (pe_read_q (ends s1 e)) s1
                 = find_pending_async (pe_read_q (ends s e)) s) \<or>
         (\<exists>h. set h \<subseteq> set (host s) \<and>
               pipe_end_read e async s
                  = do { s3 \<leftarrow> reselect_read_queue e (read_queued e async h s);
                         Some (finish_async async (Suc (next_handle s)) s3) })"
proof (cases "pe_read_q (ends s e)")
  case None
  show ?thesis
  proof (cases "host s")
    case Nil
    have id: "s\<lparr>host := []\<rparr> = s" using Nil by (cases s) simp
    show ?thesis
      using lt u ne None Nil
      by (intro disjI2 exI [of _ "[]"])
         (simp add: pipe_end_read_def create_async_queue_def alloc_handle_def upd_end_def
            queue_async_def host_ok_def set_async_queue_def read_queued_def id)
  next
    case (Cons b bs)
    show ?thesis
    proof (cases b)
      case False
      show ?thesis
        using lt u ne None Cons False
        by (intro disjI1)
           (simp add: pipe_end_read_def create_async_queue_def host_ok_def set_error_def
              find_pending_async_def is_pending_fun)
    next
      case True
      show ?thesis
      proof (cases bs)
        case Nil
        show ?thesis
          using lt u ne None \<open>host s = b # bs\<close> True Nil
          by (intro disjI2 exI [of _ "[]"])
             (simp add: pipe_end_read_def create_async_queue_def alloc_handle_def upd_end_def
                queue_async_def host_ok_def set_async_queue_def read_queued_def subset_insertI)
      next
        case (Cons b' bs')
        show ?thesis
        proof (cases b')
          case False
          show ?thesis
            using lt u ne None \<open>host s = b # bs\<close> True Cons False
            by (intro disjI1)
               (simp add: pipe_end_read_def create_async_queue_def alloc_handle_def upd_end_def
                  host_ok_def set_error_def find_pending_async_def is_pending_fun)
        next
          case t: True
          show ?thesis
            using lt u ne None \<open>host s = b # bs\<close> True Cons t
            by (intro disjI2 exI [of _ "bs'"])
               (simp add: pipe_end_read_def create_async_queue_def alloc_handle_def upd_end_def
                  queue_async_def host_ok_def set_async_queue_def read_queued_def subset_insertI)
        qed
      qed
    qed
  qed
next
  case (Some q0)
  show ?thesis
  proof (cases "host s")
    case Nil
    have id: "s\<lparr>host := []\<rparr> = s" using Nil by (cases s) simp
    show ?thesis
      using lt u ne Some Nil
      by (intro disjI2 exI [of _ "[]"])
         (simp add: pipe_end_read_def alloc_handle_def upd_end_def
            queue_async_def host_ok_def set_async_queue_def read_queued_def id)
  next
    case (Cons b bs)
    show ?thesis
    proof (cases b)
      case False
      show ?thesis
        using lt u ne Some Cons False
        by (intro disjI1)
           (simp add: pipe_end_read_def alloc_handle_def upd_end_def
              host_ok_def set_error_def find_pending_async_def is_pending_fun)
    next
      case True
      show ?thesis
        using lt u ne Some Cons True
        by (intro disjI2 exI [of _ "bs"])
           (simp add: pipe_end_read_def alloc_handle_def upd_end_def
              queue_async_def host_ok_def set_async_queue_def read_queued_def subset_insertI)
    qed
  qed
qed

lemma find_append_None:
  "find P xs = None \<Longrightarrow> find P (xs @ ys) = find P ys"
  by (induction xs) (auto split: if_splits)

lemma read_queued_facts:
  "ends (read_queued e async h s) = (ends s)(e := (ends s e)\<lparr>pe_read_q :=
      Some ((case pe_read_q (ends s e) of None \<Rightarrow> [] | Some x \<Rightarrow> x) @ [async])\<rparr>)"
  "iosbs (read_queued e async h s) = iosbs s"
  "host (read_queued e async h s) = h"
  "is_pending (read_queued e async h s) = is_pending s"
  "async_get_iosb x (read_queued e async h s) = async_get_iosb x s"
  by (auto simp: read_queued_def upd_end_def set_async_queue_def is_pending_fun
        async_get_iosb_def nth_update_self fun_eq_iff)

lemma pipe_end_read_queued:
  assumes p: "is_pending s async"
    and u: "use_server_io (ends s e)"
    and c: "pe_connection (ends s e) = None"
    and q: "pe_message_queue (ends s e) = m # ms"
    and ok: "list_all (message_ok s) (m # ms)"
    and ni: "async_get_iosb async s \<notin> msg_iosb ` set (m # ms)"
    and np: "find_pending_async (pe_read_q (ends s e)) s = None"
  shows "\<exists>handle s'. pipe_end_read e async s = Some (handle, s') \<and>
           pe_connection (ends s' e) = None \<and>
           find_pending_async (pe_read_q (ends s' e)) s' = None \<and>
           ((False \<in> set (host s) \<and> cur_error s' = STATUS_NO_MEMORY \<and>
             pe_message_queue (ends s' e) = m # ms \<and> iosbs s' = iosbs s) \<or>
            (cur_error s' = STATUS_PENDING \<and> \<not> is_pending s' async \<and>
             ((False \<in> set (host s) \<and>
               iosb_status (iosbs s' (async_get_iosb async s)) = STATUS_NO_MEMORY \<and>
               pe_message_queue (ends s' e) = m # ms) \<or>
              (out_size (iosbs s' (async_get_iosb async s))
                 = out_size (iosbs (read_size e (async_get_iosb async s) m ms s)
                                   (async_get_iosb async s)) \<and>
               iosb_result (iosbs s' (async_get_iosb async s))
                 = out_size (iosbs s' (async_get_iosb async s)) \<and>
               iosb_status (iosbs s' (async_get_iosb async s)) =
                 (if pe_flags (ends s e) AND NAMED_PIPE_MESSAGE_STREAM_READ \<noteq> 0 \<and>
                     unat (out_size (iosbs s (async_get_iosb async s))) < length (unread_bytes s m)
                  then STATUS_BUFFER_OVERFLOW else STATUS_SUCCESS) \<and>
               (out_size (iosbs s' (async_get_iosb async s)) \<noteq> 0 \<longrightarrow>
                  out_data (iosbs s' (async_get_iosb async s))
                    = Some (take (unat (out_size (iosbs s' (async_get_iosb async s))))
                                 (queue_bytes s (m # ms)))) \<and>
               pe_message_queue (ends s' e)
                 = queue_after (unat (out_size (iosbs s' (async_get_iosb async s)))) s (m # ms)))))"
proof -
  define io where "io = async_get_iosb async s"
  define q0 where "q0 = (case pe_read_q (ends s e) of None \<Rightarrow> [] | Some x \<Rightarrow> x)"
  have lt: "async < length (asyncs s)" using p by (simp add: is_pending_def)
  have ne: "pe_message_queue (ends s e) \<noteq> []" by (simp add: q)
  from pipe_end_read_alloc [OF lt u ne]
  show ?thesis
  proof (elim disjE exE conjE)
    fix s1
    assume "pipe_end_read e async s = Some (0, s1)" "cur_error s1 = STATUS_NO_MEMORY"
      "False \<in> set (host s)" "iosbs s1 = iosbs s" "pe_message_queue (ends s1 e) = pe_message_queue (ends s e)"
      "pe_connection (ends s1 e) = pe_connection (ends s e)"
      "find_pending_async (pe_read_q (ends s1 e)) s1
         = find_pending_async (pe_read_q (ends s e)) s"
    then show ?thesis using c q np by simp
  next
    fix h
    define sc where "sc = read_queued e async h s"
    define h0 where "h0 = Suc (next_handle s)"
    define sd where "sd = sc\<lparr>ignore_reselect := True\<rparr>"
    assume hs: "set h \<subseteq> set (host s)"
    assume "pipe_end_read e async s
              = do { s3 \<leftarrow> reselect_read_queue e (read_queued e async h s);
                     Some (finish_async async (Suc (next_handle s)) s3) }"
    then have pr: "pipe_end_read e async s
              = do { s3 \<leftarrow> reselect_read_queue e sc; Some (finish_async async h0 s3) }"
      by (simp add: sc_def h0_def)
    note f = read_queued_facts [where e = e and async = async and h = h and s = s,
               folded sc_def]
    have qd: "pe_message_queue (ends sd e) = m # ms" by (simp add: sd_def f q)
    have rd: "pe_read_q (ends sd e) = Some (q0 @ [async])" by (simp add: sd_def f q0_def)
    have cd: "pe_connection (ends sd e) = None" by (simp add: sd_def f c)
    have fd: "pe_flags (ends sd e) = pe_flags (ends s e)" by (simp add: sd_def f)
    have id: "iosbs sd = iosbs s" by (simp add: sd_def f)
    have iod: "async_get_iosb async sd = io"
      using f(5) [of async] by (simp add: sd_def io_def async_get_iosb_def)
    have pd: "is_pending sd = is_pending s"
      using f(4) by (simp add: sd_def is_pending_fun)
    have oth: "\<forall>i. i \<noteq> io \<longrightarrow> iosbs sd i = iosbs s i" by (simp add: id)
    have ni': "io \<notin> msg_iosb ` set (m # ms)" using ni by (simp add: io_def)
    have okd: "list_all (message_ok sd) (m # ms)"
      using ok other_iosbs_queue(1) [OF oth ni'] by simp
    have qbd: "queue_bytes sd (m # ms) = queue_bytes s (m # ms)"
      by (rule other_iosbs_queue(2) [OF oth ni'])
    have qad: "queue_after k sd (m # ms) = queue_after k s (m # ms)" for k
      by (rule other_iosbs_queue(3) [OF oth ni'])
    have ud: "unread_bytes sd m = unread_bytes s m" by (simp add: unread_bytes_def id)
    have rsd: "iosbs (read_size e io m ms sd) = iosbs (read_size e io m ms s)"
      using id fd by (rule read_size_cong)
    from message_queue_read_cases [OF qd okd ni']
    obtain s1 where r: "message_queue_read e io sd = Some s1"
      and alt: "(\<not> fst (host_ok sd) \<and>
                 iosb_status (iosbs s1 io) = STATUS_NO_MEMORY \<and> ends s1 = ends sd) \<or>
          (out_size (iosbs s1 io) = out_size (iosbs (read_size e io m ms s) io) \<and>
            iosb_result (iosbs s1 io) = out_size (iosbs s1 io) \<and>
            iosb_status (iosbs s1 io) =
              (if pe_flags (ends s e) AND NAMED_PIPE_MESSAGE_STREAM_READ \<noteq> 0 \<and>
                  unat (out_size (iosbs s io)) < length (unread_bytes s m)
               then STATUS_BUFFER_OVERFLOW else STATUS_SUCCESS) \<and>
            (out_size (iosbs s1 io) \<noteq> 0 \<longrightarrow>
               out_data (iosbs s1 io)
                 = Some (take (unat (out_size (iosbs s1 io))) (queue_bytes s (m # ms)))) \<and>
            pe_message_queue (ends s1 e)
              = queue_after (unat (out_size (iosbs s1 io))) s (m # ms))"
      unfolding qbd qad rsd fd ud id by blast
    define se where "se = async_complete async
                  (if iosb_result (iosbs s1 io) \<noteq> 0 then STATUS_ALERTED
                   else iosb_status (iosbs s1 io)) s1"
    have rs: "read_step e async sd = Some se"
      using r by (simp add: read_step_def Let_def iod se_def)
    have q0np: "find (is_pending s) q0 = None"
      using np by (cases "pe_read_q (ends s e)") (simp_all add: find_pending_async_def q0_def)
    have fp: "find_pending_async (pe_read_q (ends sd e)) sd = Some async"
      using p by (simp add: rd find_pending_async_def pd find_append_None [OF q0np])
    have oq: "only_queues sd se" using rs only_queues_closed by (rule qc_read_step)
    have st: "settles sd se" and npe: "\<not> is_pending se async"
      using read_step_settles [OF rs] by simp_all
    have re: "pe_read_q (ends se e) = Some (q0 @ [async])"
      using only_queues_end [OF oq, of e] rd by simp
    have ce: "pe_connection (ends se e) = None"
      using only_queues_end [OF oq, of e] cd by simp
    have "\<not> is_pending se x" if "x \<in> set q0" for x
    proof -
      have "\<not> is_pending sd x" using q0np that by (simp add: find_None_iff pd)
      with st show ?thesis by (rule settles_not_pending)
    qed
    then have fpe: "find_pending_async (pe_read_q (ends se e)) se = None"
      using npe by (auto simp: re find_pending_async_def find_None_iff)
    have rp2: "read_pending e True se = Some (True, se)"
      by (subst read_pending.simps) (simp add: fpe)
    have rp: "read_pending e False sd = Some (True, se)"
      by (subst read_pending.simps) (simp add: qd fp rs rp2)
    have rr: "reselect_read_queue e sc = Some (se\<lparr>ignore_reselect := False\<rparr>)"
      by (subst reselect_read_queue.simps) (simp add: sd_def [symmetric] rp Let_def ce)
    define s' where "s' = snd (finish_async async h0 (se\<lparr>ignore_reselect := False\<rparr>))"
    have res: "pipe_end_read e async s
                 = Some (fst (finish_async async h0 (se\<lparr>ignore_reselect := False\<rparr>)), s')"
      by (simp add: pr rr s'_def)
    have fe: "cur_error s' = STATUS_PENDING" "ends s' = ends se" "iosbs s' = iosbs se"
      "is_pending s' = is_pending se"
      by (simp_all add: s'_def finish_async_def Let_def set_error_def close_handle_def
            log_event_def is_pending_fun)
    have npi: "iosb_status (iosbs s1 io) \<noteq> STATUS_PENDING"
      using message_queue_read_settles [OF r] by simp
    have ke: "keeps io s1 se" unfolding se_def by (rule keeps_async_complete)
    have ie: "iosbs se io = iosbs s1 io" using ke npi by (simp add: keeps_def)
    have ee: "ends se = ends s1" by (simp add: se_def)
    have fpe': "find_pending_async (pe_read_q (ends s' e)) s' = None"
      using fpe unfolding find_pending_async_def fe(2) fe(4) .
    have hd: "False \<in> set (host s)" if "\<not> fst (host_ok sd)"
    proof -
      have "host sd = h" by (simp add: sd_def f)
      then have "False \<in> set h" using that by (auto simp: host_ok_def split: list.splits)
      then show ?thesis using hs by blast
    qed
    have "(False \<in> set (host s) \<and> iosb_status (iosbs s' io) = STATUS_NO_MEMORY \<and>
               pe_message_queue (ends s' e) = m # ms) \<or>
          (out_size (iosbs s' io) = out_size (iosbs (read_size e io m ms s) io) \<and>
               iosb_result (iosbs s' io) = out_size (iosbs s' io) \<and>
               iosb_status (iosbs s' io) =
                 (if pe_flags (ends s e) AND NAMED_PIPE_MESSAGE_STREAM_READ \<noteq> 0 \<and>
                     unat (out_size (iosbs s io)) < length (unread_bytes s m)
                  then STATUS_BUFFER_OVERFLOW else STATUS_SUCCESS) \<and>
               (out_size (iosbs s' io) \<noteq> 0 \<longrightarrow>
                  out_data (iosbs s' io)
                    = Some (take (unat (out_size (iosbs s' io))) (queue_bytes s (m # ms)))) \<and>
               pe_message_queue (ends s' e)
                 = queue_after (unat (out_size (iosbs s' io))) s (m # ms))"
      using alt qd hd by (auto simp: fe ie ee simp del: queue_after.simps)
    then show ?thesis
      unfolding io_def [symmetric]
      using res fe(1) fpe' ce npe by (auto simp: fe simp del: queue_after.simps)
  qed
qed

lemma ignore_reselect_reset:
  "\<not> ignore_reselect s \<Longrightarrow> s\<lparr>ignore_reselect := True, ignore_reselect := False\<rparr> = s"
  by (cases s) simp

lemma reselect_read_queue_idle:
  assumes "pe_message_queue (ends s e) = []" and "pe_connection (ends s e) = None"
    and "\<not> ignore_reselect s"
  shows "reselect_read_queue e s = Some s"
proof -
  have "read_pending e False (s\<lparr>ignore_reselect := True\<rparr>)
          = Some (False, s\<lparr>ignore_reselect := True\<rparr>)"
    by (subst read_pending.simps) (simp add: assms)
  then show ?thesis
    by (subst reselect_read_queue.simps)
       (simp add: assms Let_def ignore_reselect_reset [OF assms(3)])
qed

lemma async_terminate_idle_reader:
  assumes "is_pending s a \<longrightarrow>
             pe_message_queue (ends s e) = [] \<and> a_queue (asyncs s ! a) = Read_q_of e"
    and c: "pe_connection (ends s e) = None"
  shows "async_terminate a st s = Some (async_complete a st s)"
proof (cases "is_pending s a")
  case False
  then show ?thesis by (simp add: async_terminate_def)
next
  case True
  then have q: "pe_message_queue (ends s e) = []"
    and w: "a_queue (asyncs s ! a) = Read_q_of e"
    using assms by blast+
  have "reselect_read_queue e (async_complete a st s) = Some (async_complete a st s)"
    if "\<not> ignore_reselect (async_complete a st s)"
    using that by (intro reselect_read_queue_idle) (simp_all add: q c)
  then show ?thesis
    using True w
    by (simp add: async_terminate_def async_reselect_def pipe_end_reselect_async_def)
qed

lemma terminate_all_idle_readers:
  assumes "\<forall>a \<in> set q. is_pending s a \<longrightarrow>
             pe_message_queue (ends s e) = [] \<and> a_queue (asyncs s ! a) = Read_q_of e"
    and "pe_connection (ends s e) = None"
  shows "terminate_all q st s = Some (complete_all q st s)"
  using assms
proof (induction q arbitrary: s)
  case Nil
  then show ?case by simp
next
  case (Cons a q)
  have 1: "async_terminate a st s = Some (async_complete a st s)"
    using Cons.prems by (intro async_terminate_idle_reader [of s a e]) simp_all
  have "\<forall>x \<in> set q. is_pending (async_complete a st s) x \<longrightarrow>
          pe_message_queue (ends (async_complete a st s) e) = [] \<and>
          a_queue (asyncs (async_complete a st s) ! x) = Read_q_of e"
    using Cons.prems(1) settles_not_pending [OF settles_async_complete [of s a st]]
    by auto
  from Cons.IH [OF this] Cons.prems(2) 1 show ?case by simp
qed

lemma complete_all_not_pending:
  "st \<noteq> STATUS_PENDING \<Longrightarrow> a \<in> set q \<Longrightarrow> \<not> is_pending (complete_all q st s) a"
proof (induction q arbitrary: s)
  case Nil
  then show ?case by simp
next
  case (Cons x q)
  show ?case
  proof (cases "a = x")
    case True
    have "\<not> is_pending (async_complete x st s) x"
      using Cons.prems(1) by (rule not_pending_async_complete)
    then show ?thesis
      using settles_not_pending [OF settles_complete_all] True by simp
  next
    case False
    then show ?thesis using Cons by simp
  qed
qed

lemma pipe_end_disconnect_survivor:
  assumes u: "use_server_io (ends s e)"
    and c: "pe_connection (ends s e) = None"
    and rw: "readers_wait s e"
    and wg: "writers_gone s e"
  shows "\<exists>s'. pipe_end_disconnect e STATUS_PIPE_BROKEN s = Some s' \<and>
           ends s' = (ends s)(e := (ends s e)\<lparr>pe_message_queue :=
              filter (\<lambda>m. msg_async m = None) (pe_message_queue (ends s e))\<rparr>) \<and>
           find_pending_async (pe_read_q (ends s' e)) s' = None \<and>
           settles s s' \<and> same_data s s'"
proof -
  define s1 where "s1 = (case pe_fd (ends s e) of
                           None \<Rightarrow> s
                         | Some fd \<Rightarrow> fd_async_wake_up fd STATUS_PIPE_BROKEN s)"
  have e1: "ends s1 = ends s" and st1: "settles s s1" and sd1: "same_data s s1"
    and aq1: "\<And>i. a_queue (asyncs s1 ! i) = a_queue (asyncs s ! i)"
    by (simp_all add: s1_def split: option.splits)
  define rq where "rq = (case pe_read_q (ends s e) of None \<Rightarrow> [] | Some x \<Rightarrow> x)"
  define s2 where "s2 = complete_all rq STATUS_PIPE_BROKEN s1"
  have "\<forall>a \<in> set rq. is_pending s1 a \<longrightarrow>
          pe_message_queue (ends s1 e) = [] \<and> a_queue (asyncs s1 ! a) = Read_q_of e"
    using rw settles_not_pending [OF st1]
    by (auto simp: readers_wait_def rq_def [symmetric] e1 aq1)
  then have "terminate_all rq STATUS_PIPE_BROKEN s1 = Some s2"
    unfolding s2_def by (rule terminate_all_idle_readers) (simp add: e1 c)
  then have w: "async_wake_up (pe_read_q (ends s1 e)) STATUS_PIPE_BROKEN s1 = Some s2"
    by (auto simp: async_wake_up_def e1 rq_def s2_def split: option.splits)
  have e2: "ends s2 = ends s" and st2: "settles s s2" and sd2: "same_data s s2"
    and aq2: "\<And>i. a_queue (asyncs s2 ! i) = a_queue (asyncs s ! i)"
    using settles_trans [OF st1 settles_complete_all]
      same_data_trans [OF sd1 same_data_complete_all]
    by (simp_all add: s2_def e1 aq1)
  have np2: "\<forall>a \<in> set rq. \<not> is_pending s2 a"
    unfolding s2_def by (simp add: complete_all_not_pending)
  have wg2: "writers_gone s2 e" using wg st2 e2 aq2 by (rule writers_gone_settles)
  from disconnect_messages_broken [OF wg2, of 0]
  obtain s' where d: "disconnect_messages e STATUS_PIPE_BROKEN 0 s2 = Some s'"
    and e': "ends s' = (ends s)(e := (ends s e)\<lparr>pe_message_queue :=
              filter (\<lambda>m. msg_async m = None) (pe_message_queue (ends s e))\<rparr>)"
    and st': "settles s2 s'" and sd': "same_data s2 s'"
    by (auto simp: e2)
  have "disconnect_server_io e STATUS_PIPE_BROKEN s = Some s'"
    by (simp add: disconnect_server_io_def s1_def [symmetric] w d)
  then have r: "pipe_end_disconnect e STATUS_PIPE_BROKEN s = Some s'"
    using u by (simp add: pipe_end_disconnect_no_peer [OF c])
  have "\<forall>a \<in> set rq. \<not> is_pending s' a"
    using np2 settles_not_pending [OF st'] by blast
  then have "find_pending_async (pe_read_q (ends s' e)) s' = None"
    by (auto simp: find_pending_async_def find_None_iff e' rq_def split: option.splits)
  then show ?thesis
    using r e' settles_trans [OF st2 st'] same_data_trans [OF sd2 sd'] by blast
qed

lemma pipe_end_read_not_broken:
  assumes "pe_message_queue (ends s e) \<noteq> []" and "use_server_io (ends s e)"
    and "pipe_end_read e async s = Some (handle, s')"
  shows "cur_error s' \<noteq> STATUS_PIPE_BROKEN"
  using assms
  by (auto simp: pipe_end_read_def create_async_queue_def alloc_handle_def finish_async_def
        Let_def set_error_def close_handle_def log_event_def host_ok_def upd_end_def
      split: if_splits option.splits list.splits bind_splits prod.splits bool.splits)

lemma half_data_length: "length half_data = 2147483648"
  by (simp add: half_data_def)

lemma stuck_sys_facts:
  "pe_message_queue (ends stuck_sys 4) = [half_a, half_b]"
  "pe_connection (ends stuck_sys 4) = None"
  "pe_flags (ends stuck_sys 4) = 1"
  "pe_read_q (ends stuck_sys 4) = None"
  "use_server_io (ends stuck_sys 4)"
  "is_pending stuck_sys 0"
  "async_get_iosb 0 stuck_sys = 8"
  "out_size (iosbs stuck_sys 8) = 0xFFFFFFFF"
  "in_size (iosbs stuck_sys 6) = 0x80000000" "in_size (iosbs stuck_sys 7) = 0x80000000"
  "in_data (iosbs stuck_sys 6) = Some half_data" "in_data (iosbs stuck_sys 7) = Some half_data"
  "msg_iosb half_a = 6" "msg_iosb half_b = 7"
  "read_pos half_a = 0" "read_pos half_b = 0"
  "host stuck_sys = []"
  by (simp_all add: stuck_sys_def half_a_def half_b_def queued_sys_def connected_sys_def
        one_pipe_sys_def init_sys_def upd_iosb_def upd_end_def use_server_io_def const_defs
        is_pending_def async_get_iosb_def)

lemma stuck_sys_ok:
  "message_ok stuck_sys half_a" "message_ok stuck_sys half_b"
  "unread_bytes stuck_sys half_a = half_data" "unread_bytes stuck_sys half_b = half_data"
  by (simp_all add: message_ok_def unread_bytes_def stuck_sys_facts half_data_length)





subsection \<open>The walk of reselect\_write\_queue\<close>

lemma trace_grows_closed: "queue_closed trace_grows"
  unfolding queue_closed_def trace_grows_def
  by (auto simp: async_complete_def log_event_def upd_end_def upd_iosb_def host_ok_def Let_def
        split: list.splits)

lemma fates_cong:
  "\<forall>m \<in> set q. iosbs s' (msg_iosb m) = iosbs s (msg_iosb m) \<Longrightarrow>
   fates budget avail s' q = fates budget avail s q"
  by (induction q arbitrary: avail) simp_all

lemma wake_message_spec:
  assumes w: "\<forall>a. msg_async m = Some a \<longrightarrow> a_iosb (asyncs s ! a) = msg_iosb m"
  shows "fst (wake_message m s) = m\<lparr>msg_async := None\<rparr>"
    and "iosbs (snd (wake_message m s)) =
           (iosbs s)(msg_iosb m := (iosbs s (msg_iosb m))
              \<lparr>iosb_status := STATUS_SUCCESS, iosb_result := in_size (iosbs s (msg_iosb m))\<rparr>)"
    and "\<forall>a. msg_async m = Some a \<longrightarrow>
           \<not> is_pending (snd (wake_message m s)) a \<and>
           Ev_async_terminate a (if in_size (iosbs s (msg_iosb m)) \<noteq> 0
                                 then STATUS_ALERTED else STATUS_SUCCESS)
             \<in> set (trace (snd (wake_message m s))) \<and>
           Ev_release_async a \<in> set (trace (snd (wake_message m s)))"
proof -
  show "fst (wake_message m s) = m\<lparr>msg_async := None\<rparr>"
    by (simp add: wake_message_def Let_def split: option.splits)
  show "iosbs (snd (wake_message m s)) =
           (iosbs s)(msg_iosb m := (iosbs s (msg_iosb m))
              \<lparr>iosb_status := STATUS_SUCCESS, iosb_result := in_size (iosbs s (msg_iosb m))\<rparr>)"
    using w
    by (auto simp: wake_message_def Let_def upd_iosb_def async_complete_def release_async_def
          log_event_def fun_eq_iff split: option.splits)
  show "\<forall>a. msg_async m = Some a \<longrightarrow>
           \<not> is_pending (snd (wake_message m s)) a \<and>
           Ev_async_terminate a (if in_size (iosbs s (msg_iosb m)) \<noteq> 0
                                 then STATUS_ALERTED else STATUS_SUCCESS)
             \<in> set (trace (snd (wake_message m s))) \<and>
           Ev_release_async a \<in> set (trace (snd (wake_message m s)))"
    by (auto simp: wake_message_def Let_def upd_iosb_def async_complete_def release_async_def
          log_event_def is_pending_def split: option.splits)
qed

lemma write_walk_spec:
  assumes "writer_iosbs s q"
  shows "fst (write_walk reader avail q s)
           = kept_messages q (fates (pe_buffer_size (ends s reader)) avail s q) \<and>
         (\<forall>i. i \<notin> msg_iosb ` set q \<longrightarrow> iosbs (snd (write_walk reader avail q s)) i = iosbs s i) \<and>
         list_all2 (fate_done s (snd (write_walk reader avail q s))) q
           (fates (pe_buffer_size (ends s reader)) avail s q)"
  using assms
proof (induction q arbitrary: avail s)
  case Nil
  then show ?case by simp
next
  case (Cons m ms)
  let ?b = "pe_buffer_size (ends s reader)"
  let ?st = "iosb_status (iosbs s (msg_iosb m))"
  let ?av = "avail + (in_size (iosbs s (msg_iosb m)) - read_pos m)"
  have d: "msg_iosb m \<notin> msg_iosb ` set ms" and ds: "distinct (map msg_iosb ms)"
    and wm: "\<forall>a. msg_async m = Some a \<longrightarrow> a_iosb (asyncs s ! a) = msg_iosb m"
    and wms: "\<forall>x \<in> set ms. \<forall>a. msg_async x = Some a \<longrightarrow> a_iosb (asyncs s ! a) = msg_iosb x"
    using Cons.prems by (auto simp: writer_iosbs_def)
  text \<open>What the induction hypothesis gives for the rest of the walk from a memory \<open>s1\<close>.\<close>
  have step: "fst (write_walk reader av ms s1) = kept_messages ms (fates ?b av s ms) \<and>
      (\<forall>i. i \<notin> msg_iosb ` set ms \<longrightarrow> iosbs (snd (write_walk reader av ms s1)) i = iosbs s1 i) \<and>
      list_all2 (fate_done s (snd (write_walk reader av ms s1))) ms (fates ?b av s ms) \<and>
      settles s1 (snd (write_walk reader av ms s1)) \<and>
      trace_grows s1 (snd (write_walk reader av ms s1))"
    if e1: "ends s1 = ends s" and a1: "\<forall>a. a_iosb (asyncs s1 ! a) = a_iosb (asyncs s ! a)"
      and i1: "\<forall>i. i \<noteq> msg_iosb m \<longrightarrow> iosbs s1 i = iosbs s i" for s1 av
  proof -
    let ?s' = "snd (write_walk reader av ms s1)"
    have w1: "writer_iosbs s1 ms" using ds wms a1 by (simp add: writer_iosbs_def)
    have same: "\<forall>x \<in> set ms. iosbs s1 (msg_iosb x) = iosbs s (msg_iosb x)"
    proof
      fix x assume "x \<in> set ms"
      then have "msg_iosb x \<noteq> msg_iosb m" using d by (metis imageI)
      then show "iosbs s1 (msg_iosb x) = iosbs s (msg_iosb x)" using i1 by simp
    qed
    have fc: "fates ?b av s1 ms = fates ?b av s ms" using same by (rule fates_cong)
    note ih = Cons.IH [OF w1, of av, unfolded e1 fc]
    have "fate_done s1 ?s' x f = fate_done s ?s' x f" if "x \<in> set ms" for x f
      using same that by (cases f) (simp_all add: fate_done_def)
    then have "list_all2 (fate_done s ?s') ms (fates ?b av s ms)"
      using ih by (auto simp: list_all2_conv_all_nth)
    then show ?thesis
      using ih settles_write_walk [of s1 reader av ms]
        qc_write_walk [OF trace_grows_closed, of s1 reader av ms] by simp
  qed
  show ?case
  proof (cases "msg_async m \<noteq> None \<and> ?st \<noteq> STATUS_PENDING")
    case True
    then obtain a where a: "msg_async m = Some a" by auto
    define s1 where "s1 = release_async a s"
    have ww: "write_walk reader avail (m # ms) s = write_walk reader avail ms s1"
      using True a by (simp add: s1_def)
    have r: "Ev_release_async a \<in> set (trace s1)"
      by (simp add: s1_def release_async_def log_event_def)
    have s: "fst (write_walk reader avail ms s1) = kept_messages ms (fates ?b avail s ms)"
      "\<forall>i. i \<notin> msg_iosb ` set ms \<longrightarrow> iosbs (snd (write_walk reader avail ms s1)) i = iosbs s1 i"
      "list_all2 (fate_done s (snd (write_walk reader avail ms s1))) ms (fates ?b avail s ms)"
      "trace_grows s1 (snd (write_walk reader avail ms s1))"
      using step [of s1 avail] by (simp_all add: s1_def release_async_def log_event_def)
    have "fate_done s (snd (write_walk reader avail ms s1)) m Freed"
      using a r s(4) by (auto simp: fate_done_def trace_grows_def)
    then show ?thesis
      unfolding ww using True s by (simp add: s1_def release_async_def log_event_def)
  next
    case nf: False
    show ?thesis
    proof (cases "?st = STATUS_PENDING \<and> (?av \<le> ?b \<or> in_size (iosbs s (msg_iosb m)) = 0)")
      case True
      define s1 where "s1 = snd (wake_message m s)"
      note wk = wake_message_spec [OF wm, folded s1_def]
      have ww: "write_walk reader avail (m # ms) s =
                 (m\<lparr>msg_async := None\<rparr> # fst (write_walk reader ?av ms s1),
                  snd (write_walk reader ?av ms s1))"
        using True nf wk(1)
        by (auto simp: Let_def case_prod_beta s1_def split: option.splits)
      have oq: "only_queues s s1" unfolding s1_def by (rule qc_wake_message [OF only_queues_closed])
      have e1: "ends s1 = ends s" by (simp add: s1_def)
      have a1: "\<forall>a. a_iosb (asyncs s1 ! a) = a_iosb (asyncs s ! a)"
        using oq by (simp add: only_queues_def)
      have i1: "\<forall>i. i \<noteq> msg_iosb m \<longrightarrow> iosbs s1 i = iosbs s i" by (simp add: wk(2))
      let ?s' = "snd (write_walk reader ?av ms s1)"
      note s = step [OF e1 a1 i1, of ?av]
      have im: "iosbs ?s' (msg_iosb m) = iosbs s1 (msg_iosb m)" using s d by blast
      have "fate_done s ?s' m Woken"
        unfolding fate_done_def
        using wk(3) s im
        by (auto simp: wk(2) trace_grows_def dest: settles_not_pending)
      then show ?thesis
        unfolding ww using True nf s i1 by (simp add: e1)
    next
      case False
      have ww: "write_walk reader avail (m # ms) s =
                 (m # fst (write_walk reader ?av ms s), snd (write_walk reader ?av ms s))"
        using False nf by (auto simp: Let_def case_prod_beta split: option.splits)
      let ?s' = "snd (write_walk reader ?av ms s)"
      have s: "fst (write_walk reader ?av ms s) = kept_messages ms (fates ?b ?av s ms)"
        "\<forall>i. i \<notin> msg_iosb ` set ms \<longrightarrow> iosbs ?s' i = iosbs s i"
        "list_all2 (fate_done s ?s') ms (fates ?b ?av s ms)"
        using step [of s ?av] by simp_all
      have "fate_done s ?s' m Kept" using s(2) d by (simp add: fate_done_def)
      then show ?thesis
        unfolding ww using False nf s by auto
    qed
  qed
qed

lemma length_fates [simp]: "length (fates budget avail s q) = length q"
  by (induction q arbitrary: avail) simp_all

lemma fates_nth:
  "k < length q \<Longrightarrow>
   (fates budget avail s q ! k = Freed) =
     (msg_async (q ! k) \<noteq> None \<and> iosb_status (iosbs s (msg_iosb (q ! k))) \<noteq> STATUS_PENDING) \<and>
   (fates budget avail s q ! k = Woken \<longrightarrow>
      iosb_status (iosbs s (msg_iosb (q ! k))) = STATUS_PENDING)"
proof (induction q arbitrary: avail k)
  case Nil
  then show ?case by simp
next
  case (Cons m ms)
  show ?case
  proof (cases k)
    case 0
    then show ?thesis by simp
  next
    case (Suc j)
    then have "j < length ms" using Cons.prems by simp
    from Cons.IH [OF this] show ?thesis using Suc by simp
  qed
qed





subsection \<open>Flushing a pipe in byte mode\<close>

lemma three_share:
  "(3::32 word) \<noteq> 0" "(3::32 word) AND NOT (1 OR 2) = 0"
  "(3::32 word) AND 1 \<noteq> 0" "(3::32 word) AND 2 \<noteq> 0"
  by simp_all

lemma byte_pipe_sys_created:
  "create_named_pipe byte_request (Some pipe_p) init_sys = Some (1, byte_pipe_sys)"
  using three_share
  by (simp add: eval_nat_numeral byte_request_def pipe_p_def init_sys_def byte_pipe_sys_def
      const_defs create_defs Let_def)

lemma byte_connected_sys_opened:
  "named_pipe_open_file 1 (GENERIC_READ OR GENERIC_WRITE) 0 0 byte_pipe_sys
     = Some (Some 4, byte_connected_sys)"
  using three_share
  by (simp add: eval_nat_numeral byte_connected_sys_def byte_pipe_sys_def init_sys_def
      const_defs create_defs open_defs Let_def)

lemma byte_written_sys_reachable: "reachable byte_written_sys"
proof -
  have "step init_sys byte_pipe_sys"
    using byte_pipe_sys_created
    by (intro step_create_named_pipe [of byte_request "Some pipe_p" init_sys 1])
       (simp add: clear_error_def init_sys_def)
  then have 1: "reachable byte_pipe_sys" using reachable_init reachable_step by blast
  have "clear_error byte_pipe_sys = byte_pipe_sys"
    by (simp add: clear_error_def byte_pipe_sys_def init_sys_def)
  then have "step byte_pipe_sys byte_connected_sys"
    using byte_connected_sys_opened
    by (intro step_open_file [of byte_pipe_sys 1 "GENERIC_READ OR GENERIC_WRITE" 0 0 "Some 4"])
       (simp_all add: byte_pipe_sys_def)
  with 1 have 2: "reachable byte_connected_sys" by (rule reachable_step)
  have "step byte_connected_sys byte_written_sys"
    unfolding byte_written_sys_def by (rule step_host_poll)
  with 2 show ?thesis by (rule reachable_step)
qed

text \<open>
  Claim C7.  A flush is to complete with success only when the peer holds no more of the
  data that was queued when the flush was asked for.  In byte mode the flush of the
  client end does not wait: in the reachable memory \<open>byte_written_sys\<close>, where the server's
  socket still holds what the client wrote, \<open>pipe_client_flush\<close> returns at once, no wait
  handle, no error, nothing queued on a descriptor, the memory as it was.  The server's
  flush in the mirrored memory does what the claim says: the data are found remaining,
  the async is queued on the server's descriptor, the request is left pending with a
  wait handle, and the poll of the peer is started.
\<close>

theorem pipe_client_flush_byte_mode:
  "reachable byte_written_sys \<and>
   obj_ops byte_written_sys 4 = pipe_client_ops \<and>
   pe_connection (ends byte_written_sys 4) = Some 2 \<and>
   pe_fd (ends byte_written_sys 2) = Some 6 \<and>
   fd_unix (fds byte_written_sys 6) \<and> fd_pollin (fds byte_written_sys 6) \<and>
   create_request_async [] 0 True (clear_error byte_written_sys) = (0, client_flush_sys) \<and>
   pipe_client_flush 4 0 client_flush_sys = Some (0, client_flush_sys) \<and>
   cur_error client_flush_sys = STATUS_SUCCESS \<and>
   fd_wait_q (fds client_flush_sys 5) = [] \<and>
   pipe_data_remaining 2 server_flush_sys = Some True \<and>
   map_option fst (pipe_server_flush (Some 2) 0 server_flush_sys) = Some 2 \<and>
   map_option (cur_error \<circ> snd) (pipe_server_flush (Some 2) 0 server_flush_sys)
     = Some STATUS_PENDING \<and>
   map_option (fd_wait_q \<circ> (\<lambda>s. fds s 6) \<circ> snd) (pipe_server_flush (Some 2) 0 server_flush_sys)
     = Some [0]"
proof -
  have a: "obj_ops byte_written_sys 4 = pipe_client_ops"
    "pe_connection (ends byte_written_sys 4) = Some 2"
    "pe_fd (ends byte_written_sys 2) = Some 6"
    "fd_unix (fds byte_written_sys 6)" "fd_pollin (fds byte_written_sys 6)"
    by (simp_all add: byte_written_sys_def byte_connected_sys_def byte_pipe_sys_def
          init_sys_def upd_fd_def)
  have b: "create_request_async [] 0 True (clear_error byte_written_sys) = (0, client_flush_sys)"
    by (simp add: client_flush_sys_def create_request_async_def alloc_addr_def clear_error_def
          byte_written_sys_def byte_connected_sys_def byte_pipe_sys_def init_sys_def upd_fd_def)
  have c: "\<not> use_server_io (ends client_flush_sys 4)"
    "cur_error client_flush_sys = STATUS_SUCCESS"
    "fd_wait_q (fds client_flush_sys 5) = []"
    by (simp_all add: client_flush_sys_def create_request_async_def alloc_addr_def
          clear_error_def byte_written_sys_def byte_connected_sys_def byte_pipe_sys_def
          init_sys_def upd_fd_def use_server_io_def)
  have d: "pipe_client_flush 4 0 client_flush_sys = Some (0, client_flush_sys)"
    using c(1) by (simp add: pipe_client_flush_def)
  have e: "srv_state (servers server_flush_sys 2) = ps_connected_server"
    "srv_client (servers server_flush_sys 2) = Some 4"
    "\<not> use_server_io (ends server_flush_sys 2)"
    "pe_fd (ends server_flush_sys 4) = Some 5"
    "pe_fd (ends server_flush_sys 2) = Some 6"
    "fd_unix (fds server_flush_sys 5)" "fd_pollin (fds server_flush_sys 5)"
    "fd_wait_q (fds server_flush_sys 6) = []"
    "host server_flush_sys = []"
    "async_is_blocking 0 server_flush_sys"
    "next_handle server_flush_sys = 1"
    "\<not> srv_flush_poll (servers server_flush_sys 2)"
    by (simp_all add: server_flush_sys_def create_request_async_def alloc_addr_def
          clear_error_def byte_answered_sys_def byte_connected_sys_def byte_pipe_sys_def
          init_sys_def upd_fd_def use_server_io_def async_is_blocking_def)
  have f: "pipe_data_remaining 2 server_flush_sys = Some True"
    by (simp add: pipe_data_remaining_def e)
  have q: "set_async_queue 0 Other_queue server_flush_sys = server_flush_sys"
    by (simp add: set_async_queue_def server_flush_sys_def create_request_async_def
          alloc_addr_def clear_error_def byte_answered_sys_def byte_connected_sys_def
          byte_pipe_sys_def init_sys_def upd_fd_def)
  define hd where "hd = Suc (next_handle server_flush_sys)"
  have hd2: "hd = 2" by (simp add: hd_def e)
  have g: "pipe_end_flush 2 0 server_flush_sys =
             Some (hd, set_error STATUS_PENDING
                        ((upd_fd 6 (\<lambda>d. d\<lparr>fd_wait_q := fd_wait_q d @ [0]\<rparr>) server_flush_sys)
                           \<lparr>next_handle := hd\<rparr>))"
    using e(10)
    by (simp add: pipe_end_flush_def e(1-9) e(12) fd_queue_async_def q host_ok_def
          alloc_handle_def upd_fd_def hd_def async_is_blocking_def)
  have h: "pipe_server_flush (Some 2) 0 server_flush_sys =
             Some (hd, upd_server 2 (\<lambda>v. v\<lparr>srv_flush_poll := True\<rparr>)
                        (set_error STATUS_PENDING
                           ((upd_fd 6 (\<lambda>d. d\<lparr>fd_wait_q := fd_wait_q d @ [0]\<rparr>) server_flush_sys)
                              \<lparr>next_handle := hd\<rparr>)))"
    by (simp add: pipe_server_flush_def e(1-9) e(10) e(12) f g set_error_def upd_fd_def hd_def)
  show ?thesis
    using byte_written_sys_reachable a b c d f
    by (simp add: h hd2 set_error_def upd_fd_def upd_server_def e)
qed


end
